theory Spec2Isabelle
  imports Complex_Main "HOL-Library.Stream"
begin

section \<open>placement\_utils.py: data model\<close>

text \<open>
  A component of the utility format is the dict \<open>{'x': .., 'y': .., 'w': .., 'h': ..}\<close>.
  Python numbers (ints, and the floats that \<open>/\<close> produces) are modelled as exact reals;
  rounding of floating-point arithmetic is not modelled.
\<close>

record rect =
  rect_x :: real
  rect_y :: real
  rect_w :: real
  rect_h :: real

text \<open>
  A placement is a Python dict from component names to components. It is modelled as an
  association list in insertion order; \<open>dict_set\<close> is the assignment \<open>d[k] = v\<close>
  (replace in place, or append), \<open>dict_get\<close> is \<open>d[k]\<close> and \<open>dict_has\<close> is \<open>k in d\<close>.
  In the source \<open>d[k]\<close> raises KeyError for an absent key; the validator reads only keys
  that its guard has found present.
\<close>

type_synonym ('k, 'v) dict = "('k \<times> 'v) list"

type_synonym placement = "(string, rect) dict"

fun dict_set :: "'k \<Rightarrow> 'v \<Rightarrow> ('k, 'v) dict \<Rightarrow> ('k, 'v) dict" where
  "dict_set k v [] = [(k, v)]"
| "dict_set k v ((k', v') # d) = (if k' = k then (k, v) # d else (k', v') # dict_set k v d)"

definition dict_has :: "('k, 'v) dict \<Rightarrow> 'k \<Rightarrow> bool" where
  "dict_has d k = (map_of d k \<noteq> None)"

definition dict_get :: "('k, 'v) dict \<Rightarrow> 'k \<Rightarrow> 'v" where
  "dict_get d k = the (map_of d k)"

definition dict_values :: "('k, 'v) dict \<Rightarrow> 'v list" where
  "dict_values d = map snd d"

subsection \<open>Assignment constants\<close>

definition BOARD_DIMS :: "real \<times> real" where
  "BOARD_DIMS = (50, 50)"

definition PROXIMITY_RADIUS :: real where
  "PROXIMITY_RADIUS = 10"

definition CENTER_OF_MASS_RADIUS :: real where
  "CENTER_OF_MASS_RADIUS = 2"

definition KEEPOUT_ZONE_DIMS :: "real \<times> real" where
  "KEEPOUT_ZONE_DIMS = (10, 20)"

definition VALIDATION_TIME_LIMIT :: real where
  "VALIDATION_TIME_LIMIT = 2"

definition USB_CONNECTOR :: string where
  "USB_CONNECTOR = ''USB_CONNECTOR''"

definition MICROCONTROLLER :: string where
  "MICROCONTROLLER = ''MICROCONTROLLER''"

definition CRYSTAL :: string where
  "CRYSTAL = ''CRYSTAL''"

definition MIKROBUS_CONNECTOR_1 :: string where
  "MIKROBUS_CONNECTOR_1 = ''MIKROBUS_CONNECTOR_1''"

definition MIKROBUS_CONNECTOR_2 :: string where
  "MIKROBUS_CONNECTOR_2 = ''MIKROBUS_CONNECTOR_2''"

definition required_keys :: "string list" where
  "required_keys = [USB_CONNECTOR, MICROCONTROLLER, CRYSTAL,
                    MIKROBUS_CONNECTOR_1, MIKROBUS_CONNECTOR_2]"

subsection \<open>Geometric helper functions\<close>

definition get_center :: "rect \<Rightarrow> real \<times> real" where
  "get_center c = (rect_x c + rect_w c / 2, rect_y c + rect_h c / 2)"

definition distance :: "real \<times> real \<Rightarrow> real \<times> real \<Rightarrow> real" where
  "distance p1 p2 = sqrt ((fst p2 - fst p1)\<^sup>2 + (snd p2 - snd p1)\<^sup>2)"

section \<open>placement\_utils.py: the seven rules of validate\_placement\<close>

text \<open>Boundary: every component lies on the board.\<close>

definition in_bounds :: "rect \<Rightarrow> bool" where
  "in_bounds c = (rect_x c \<ge> 0 \<and> rect_y c \<ge> 0 \<and>
     rect_x c + rect_w c \<le> fst BOARD_DIMS \<and>
     rect_y c + rect_h c \<le> snd BOARD_DIMS)"

definition all_in_bounds :: "placement \<Rightarrow> bool" where
  "all_in_bounds placement = list_all in_bounds (dict_values placement)"

text \<open>
  No overlapping: the test written inline for the pair \<open>items[i]\<close>, \<open>items[j]\<close>, and the
  \<open>any\<close> over all pairs \<open>i < j\<close>.
\<close>

definition rects_overlap :: "rect \<Rightarrow> rect \<Rightarrow> bool" where
  "rects_overlap a b = (\<not> (rect_x a + rect_w a \<le> rect_x b \<or>
                           rect_x a \<ge> rect_x b + rect_w b \<or>
                           rect_y a + rect_h a \<le> rect_y b \<or>
                           rect_y a \<ge> rect_y b + rect_h b))"

fun any_pair_overlaps :: "rect list \<Rightarrow> bool" where
  "any_pair_overlaps [] = False"
| "any_pair_overlaps (a # rest) = (list_ex (rects_overlap a) rest \<or> any_pair_overlaps rest)"

definition overlap_found :: "placement \<Rightarrow> bool" where
  "overlap_found placement = any_pair_overlaps (dict_values placement)"

text \<open>Edge placement: the three connectors each touch a board edge.\<close>

definition on_edge :: "rect \<Rightarrow> bool" where
  "on_edge c = (rect_x c = 0 \<or> rect_y c = 0 \<or>
     rect_x c + rect_w c = fst BOARD_DIMS \<or>
     rect_y c + rect_h c = snd BOARD_DIMS)"

definition all_on_edge :: "placement \<Rightarrow> bool" where
  "all_on_edge placement = list_all (\<lambda>name. on_edge (dict_get placement name))
     [USB_CONNECTOR, MIKROBUS_CONNECTOR_1, MIKROBUS_CONNECTOR_2]"

text \<open>Parallel placement of the two MIKROBUS connectors.\<close>

definition is_parallel :: "placement \<Rightarrow> bool" where
  "is_parallel placement =
     (let mb1 = dict_get placement MIKROBUS_CONNECTOR_1;
          mb2 = dict_get placement MIKROBUS_CONNECTOR_2
      in if rect_w mb1 = rect_w mb2
         then (rect_x mb1 = 0 \<and> rect_x mb2 + rect_w mb2 = 50) \<or>
              (rect_x mb1 + rect_w mb1 = 50 \<and> rect_x mb2 = 0) \<or>
              (rect_y mb1 = 0 \<and> rect_y mb2 + rect_h mb2 = 50) \<or>
              (rect_y mb1 + rect_h mb1 = 50 \<and> rect_y mb2 = 0)
         else False)"

text \<open>Proximity of crystal and microcontroller.\<close>

definition proximity_dist :: "placement \<Rightarrow> real" where
  "proximity_dist placement =
     distance (get_center (dict_get placement CRYSTAL))
              (get_center (dict_get placement MICROCONTROLLER))"

text \<open>Global balance: the average of all centers, and its distance to (25, 25).\<close>

definition center_of_mass :: "placement \<Rightarrow> real \<times> real" where
  "center_of_mass placement =
     (sum_list (map (\<lambda>c. fst (get_center c)) (dict_values placement)) / real (length placement),
      sum_list (map (\<lambda>c. snd (get_center c)) (dict_values placement)) / real (length placement))"

definition com_dist :: "placement \<Rightarrow> real" where
  "com_dist placement = distance (center_of_mass placement) (25, 25)"

text \<open>Keep-out zone: the if/elif chain on the USB connector, and the segment test.\<close>

definition keepout_zone :: "rect \<Rightarrow> rect" where
  "keepout_zone usb =
     (let zone_w = fst KEEPOUT_ZONE_DIMS; zone_h_inward = snd KEEPOUT_ZONE_DIMS;
          usb_cx = fst (get_center usb); usb_cy = snd (get_center usb)
      in if rect_y usb = 0
           then \<lparr>rect_x = usb_cx - zone_w / 2, rect_y = 0, rect_w = zone_w, rect_h = zone_h_inward\<rparr>
         else if rect_y usb + rect_h usb = 50
           then \<lparr>rect_x = usb_cx - zone_w / 2, rect_y = 50 - zone_h_inward,
                 rect_w = zone_w, rect_h = zone_h_inward\<rparr>
         else if rect_x usb = 0
           then \<lparr>rect_x = 0, rect_y = usb_cy - zone_w / 2, rect_w = zone_h_inward, rect_h = zone_w\<rparr>
         else \<lparr>rect_x = 50 - zone_h_inward, rect_y = usb_cy - zone_w / 2,
                rect_w = zone_h_inward, rect_h = zone_w\<rparr>)"

definition ccw :: "real \<times> real \<Rightarrow> real \<times> real \<Rightarrow> real \<times> real \<Rightarrow> bool" where
  "ccw A B C = ((snd C - snd A) * (fst B - fst A) > (snd B - snd A) * (fst C - fst A))"

definition intersect :: "real \<times> real \<Rightarrow> real \<times> real \<Rightarrow> real \<times> real \<Rightarrow> real \<times> real \<Rightarrow> bool" where
  "intersect A B C D = (ccw A C D \<noteq> ccw B C D \<and> ccw A B C \<noteq> ccw A B D)"

definition crosses_zone :: "real \<times> real \<Rightarrow> real \<times> real \<Rightarrow> rect \<Rightarrow> bool" where
  "crosses_zone p1 p2 zone =
     (let tl = (rect_x zone, rect_y zone);
          tr = (rect_x zone + rect_w zone, rect_y zone);
          bl = (rect_x zone, rect_y zone + rect_h zone);
          br = (rect_x zone + rect_w zone, rect_y zone + rect_h zone)
      in intersect p1 p2 tl tr \<or> intersect p1 p2 tr br \<or>
         intersect p1 p2 br bl \<or> intersect p1 p2 bl tl)"

definition intersects :: "placement \<Rightarrow> bool" where
  "intersects placement =
     (let usb = dict_get placement USB_CONNECTOR;
          crystal = dict_get placement CRYSTAL;
          micro = dict_get placement MICROCONTROLLER
      in crosses_zone (get_center crystal) (get_center micro) (keepout_zone usb))"

section \<open>placement\_utils.py: validate\_placement\<close>

text \<open>
  What the validator prints: the banner, then either the missing-component message or
  one line per rule. A rule's message carries the number that the source formats with
  two decimals.
\<close>

datatype msg = NoMsg | ActualDistance real | CoMDist real

datatype line = Banner | MissingComponents | RuleLine string bool msg

text \<open>The \<open>results\<close> dict, filled rule by rule in the order of the source.\<close>

definition rule_results :: "placement \<Rightarrow> (string, bool \<times> msg) dict" where
  "rule_results placement =
     (let results = [];
          results = dict_set ''Boundary Constraint'' (all_in_bounds placement, NoMsg) results;
          results = dict_set ''No Overlapping'' (\<not> overlap_found placement, NoMsg) results;
          results = dict_set ''Edge Placement'' (all_on_edge placement, NoMsg) results;
          results = dict_set ''Parallel Placement'' (is_parallel placement, NoMsg) results;
          dst = proximity_dist placement;
          results = dict_set ''Proximity Constraint''
                      (dst \<le> PROXIMITY_RADIUS, ActualDistance dst) results;
          cd = com_dist placement;
          results = dict_set ''Global Balance'' (cd \<le> CENTER_OF_MASS_RADIUS, CoMDist cd) results;
          results = dict_set ''Keep-Out Zone'' (\<not> intersects placement, NoMsg) results
      in results)"

text \<open>
  \<open>validate_placement\<close> returns its boolean together with the lines it prints.
\<close>

definition validate_placement :: "placement \<Rightarrow> bool \<times> line list" where
  "validate_placement placement =
     (if \<not> list_all (dict_has placement) required_keys
      then (False, [Banner, MissingComponents])
      else (let results = rule_results placement;
                all_valid = list_all (\<lambda>res. fst res) (dict_values results)
            in (all_valid,
                Banner # map (\<lambda>(rule, (is_valid, m)). RuleLine rule is_valid m) results)))"

section \<open>solver.py: helpers\<close>

text \<open>
  The solver's internal dict is keyed by the five names of \<open>COMPONENTS_SPECS\<close> only
  (any other name raises KeyError in the source), so its keys are a datatype;
  \<open>name_of\<close> gives the string under which the utility format stores the component.
  A position is the tuple \<open>(x, y, rot)\<close>.
\<close>

datatype component = Usb | Micro | Xtal | Mikrobus1 | Mikrobus2

fun name_of :: "component \<Rightarrow> string" where
  "name_of Usb = USB_CONNECTOR"
| "name_of Micro = MICROCONTROLLER"
| "name_of Xtal = CRYSTAL"
| "name_of Mikrobus1 = MIKROBUS_CONNECTOR_1"
| "name_of Mikrobus2 = MIKROBUS_CONNECTOR_2"

fun COMPONENTS_SPECS :: "component \<Rightarrow> int \<times> int" where
  "COMPONENTS_SPECS Usb = (5, 5)"
| "COMPONENTS_SPECS Micro = (5, 5)"
| "COMPONENTS_SPECS Xtal = (5, 5)"
| "COMPONENTS_SPECS Mikrobus1 = (5, 15)"
| "COMPONENTS_SPECS Mikrobus2 = (5, 15)"

type_synonym pos = "real \<times> real \<times> int"

type_synonym internal_placement = "(component, pos) dict"

definition rotated_size :: "component \<Rightarrow> int \<Rightarrow> int \<times> int" where
  "rotated_size name rot =
     (let (sw, sh) = COMPONENTS_SPECS name in if rot = 90 then (sh, sw) else (sw, sh))"

definition get_center_from_pos :: "component \<Rightarrow> pos \<Rightarrow> real \<times> real" where
  "get_center_from_pos name p =
     (let (sw, sh) = rotated_size name (snd (snd p))
      in (fst p + real_of_int sw / 2, fst (snd p) + real_of_int sh / 2))"

definition convert_to_util_format :: "internal_placement \<Rightarrow> placement" where
  "convert_to_util_format internal_placement =
     foldl (\<lambda>util_placement (name, (px, py, rot)).
              let (sw, sh) = rotated_size name rot
              in dict_set (name_of name)
                   \<lparr>rect_x = px, rect_y = py, rect_w = real_of_int sw, rect_h = real_of_int sh\<rparr>
                   util_placement)
           [] internal_placement"

text \<open>Python's \<open>int()\<close> on a float truncates toward zero.\<close>

definition py_int :: "real \<Rightarrow> int" where
  "py_int r = (if r \<ge> 0 then \<lfloor>r\<rfloor> else \<lceil>r\<rceil>)"

section \<open>solver.py: the clock, the random source and standard output\<close>

text \<open>
  The search reads the wall clock, draws random numbers and (through the validator)
  prints. These are the fields of the state it threads:
  \<^item> \<open>now\<close> is the wall clock, what \<open>time.time()\<close> returns;
  \<^item> \<open>read_delays\<close> gives, for each coming call of \<open>time.time()\<close>, the time that passes
    between that reading and the next step (negative if the system clock is set back);
  \<^item> \<open>durations\<close> gives, for each coming inner attempt (candidate generation and
    validation), the time it takes;
  \<^item> \<open>int_draws\<close> are the raw integers behind \<open>random.shuffle\<close> and \<open>random.randint\<close>;
  \<^item> \<open>float_draws\<close> are the successive values of \<open>random.random()\<close>;
  \<^item> \<open>stdout\<close> is everything printed so far.
\<close>

record world =
  now :: real
  read_delays :: "real stream"
  durations :: "real stream"
  int_draws :: "nat stream"
  float_draws :: "real stream"
  stdout :: "line list"

definition time_time :: "world \<Rightarrow> real \<times> world" where
  "time_time s =
     (now s, s\<lparr>now := now s + shd (read_delays s), read_delays := stl (read_delays s)\<rparr>)"

definition elapse :: "world \<Rightarrow> world" where
  "elapse s = s\<lparr>now := now s + shd (durations s), durations := stl (durations s)\<rparr>"

text \<open>
  The library calls. \<open>randbelow n\<close> takes the next raw draw, reduced into \<open>0 .. n - 1\<close>;
  \<open>random.randint(a, b)\<close> is \<open>a + randbelow(b - a + 1)\<close>, and \<open>random.uniform(a, b)\<close> is
  \<open>a + (b - a) * random()\<close>. Every draw in range is the image of some stream. An inner
  attempt ends with \<open>elapse\<close>, which lets its duration pass.
\<close>

definition randbelow :: "nat \<Rightarrow> world \<Rightarrow> nat \<times> world" where
  "randbelow n s = (shd (int_draws s) mod n, s\<lparr>int_draws := stl (int_draws s)\<rparr>)"

definition randint :: "int \<Rightarrow> int \<Rightarrow> world \<Rightarrow> int \<times> world" where
  "randint a b s = (let (k, s) = randbelow (nat (b - a + 1)) s in (a + int k, s))"

definition uniform :: "real \<Rightarrow> real \<Rightarrow> world \<Rightarrow> real \<times> world" where
  "uniform a b s = (a + (b - a) * shd (float_draws s), s\<lparr>float_draws := stl (float_draws s)\<rparr>)"

text \<open>
  \<open>random.shuffle\<close>: for \<open>i\<close> from \<open>len(x) - 1\<close> down to 1, swap \<open>x[i]\<close> with
  \<open>x[randbelow(i + 1)]\<close>.
\<close>

fun shuffle_from :: "nat \<Rightarrow> 'a list \<Rightarrow> world \<Rightarrow> 'a list \<times> world" where
  "shuffle_from 0 xs s = (xs, s)"
| "shuffle_from (Suc i) xs s =
     (let (j, s) = randbelow (Suc i + 1) s
      in shuffle_from i (xs[Suc i := xs ! j, j := xs ! Suc i]) s)"

definition shuffle :: "'a list \<Rightarrow> world \<Rightarrow> 'a list \<times> world" where
  "shuffle xs s = shuffle_from (length xs - 1) xs s"

definition call_validate :: "placement \<Rightarrow> world \<Rightarrow> bool \<times> world" where
  "call_validate placement s =
     (let (ok, printed) = validate_placement placement
      in (ok, s\<lparr>stdout := stdout s @ printed\<rparr>))"

section \<open>solver.py: find\_placement\<close>

type_synonym config = "string \<times> string"

definition edge_configs :: "config list" where
  "edge_configs = [(''v'', ''top''), (''v'', ''bottom''), (''h'', ''left''), (''h'', ''right'')]"

text \<open>Steps 1 and 2 of the loop body: the two MIKROBUS connectors, then the USB connector.\<close>

definition place_mikrobus :: "string \<Rightarrow> world \<Rightarrow> internal_placement \<times> world" where
  "place_mikrobus mb_orientation s =
     (let positions = [];
          (sw, sh) = COMPONENTS_SPECS Mikrobus1
      in if mb_orientation = ''v''
         then (let rot = 90; rw = sh; rh = sw;
                   (y1, s) = randint 0 (50 - rh) s;
                   (y2, s) = randint 0 (50 - rh) s;
                   positions = dict_set Mikrobus1 (0, real_of_int y1, rot) positions;
                   positions = dict_set Mikrobus2 (real_of_int (50 - rw), real_of_int y2, rot) positions
               in (positions, s))
         else (let rot = 0; rw = sw; rh = sh;
                   (x1, s) = randint 0 (50 - rw) s;
                   (x2, s) = randint 0 (50 - rw) s;
                   positions = dict_set Mikrobus1 (real_of_int x1, 0, rot) positions;
                   positions = dict_set Mikrobus2 (real_of_int x2, real_of_int (50 - rh), rot) positions
               in (positions, s)))"

definition place_usb :: "string \<Rightarrow> internal_placement \<Rightarrow> world \<Rightarrow> internal_placement \<times> world" where
  "place_usb usb_edge positions s =
     (let (usb_w, usb_h) = COMPONENTS_SPECS Usb
      in if usb_edge = ''top''
           then (let (r, s) = randint 0 (50 - usb_w) s
                 in (dict_set Usb (real_of_int r, 0, 0) positions, s))
         else if usb_edge = ''bottom''
           then (let (r, s) = randint 0 (50 - usb_w) s
                 in (dict_set Usb (real_of_int r, real_of_int (50 - usb_h), 0) positions, s))
         else if usb_edge = ''left''
           then (let (r, s) = randint 0 (50 - usb_h) s
                 in (dict_set Usb (0, real_of_int r, 0) positions, s))
         else (let (r, s) = randint 0 (50 - usb_h) s
               in (dict_set Usb (real_of_int (50 - usb_w), real_of_int r, 0) positions, s)))"

text \<open>Step 3: the target center for the two internal components.\<close>

definition target_center :: "internal_placement \<Rightarrow> real \<times> real" where
  "target_center positions =
     (let edge_com_x = sum_list (map (\<lambda>(name, p). fst (get_center_from_pos name p)) positions);
          edge_com_y = sum_list (map (\<lambda>(name, p). snd (get_center_from_pos name p)) positions);
          target_sum_x = 125; target_sum_y = 125;
          internal_sum_x = target_sum_x - edge_com_x;
          internal_sum_y = target_sum_y - edge_com_y
      in (internal_sum_x / 2, internal_sum_y / 2))"

text \<open>
  Step 4, one pass of \<open>for i in range(100)\<close>: the candidate it builds, and the loop.
\<close>

definition place_internal :: "real \<times> real \<Rightarrow> internal_placement \<Rightarrow> world \<Rightarrow> internal_placement \<times> world" where
  "place_internal target positions s =
     (let (mc_w, mc_h) = COMPONENTS_SPECS Micro;
          (cr_w, cr_h) = COMPONENTS_SPECS Xtal;
          (dx, s) = uniform (- 5) 5 s;
          (dy, s) = uniform (- 5) 5 s;
          mc_x = py_int (fst target - real_of_int mc_w / 2 + dx);
          mc_y = py_int (snd target - real_of_int mc_h / 2 + dy);
          mc_pos = (real_of_int mc_x, real_of_int mc_y, 0);
          positions = dict_set Micro mc_pos positions;
          (angle, s) = uniform 0 (2 * pi) s;
          (dst, s) = uniform 0 PROXIMITY_RADIUS s;
          mc_center = get_center_from_pos Micro mc_pos;
          cr_x = py_int (fst mc_center + dst * cos angle - real_of_int cr_w / 2);
          cr_y = py_int (snd mc_center + dst * sin angle - real_of_int cr_h / 2);
          positions = dict_set Xtal (real_of_int cr_x, real_of_int cr_y, 0) positions
      in (positions, s))"

fun inner_attempts :: "nat \<Rightarrow> real \<times> real \<Rightarrow> internal_placement \<Rightarrow> world
                        \<Rightarrow> internal_placement option \<times> world" where
  "inner_attempts 0 target positions s = (None, s)"
| "inner_attempts (Suc n) target positions s =
     (let (positions, s) = place_internal target positions s;
          final_placement = convert_to_util_format positions;
          (ok, s) = call_validate final_placement s;
          s = elapse s
      in if ok then (Some positions, s)
         else inner_attempts n target positions s)"

text \<open>The body of the \<open>while\<close> loop.\<close>

definition outer_attempt :: "config \<Rightarrow> world \<Rightarrow> internal_placement option \<times> world" where
  "outer_attempt cfg s =
     (let (positions, s) = place_mikrobus (fst cfg) s;
          (positions, s) = place_usb (snd cfg) positions s
      in inner_attempts 100 (target_center positions) positions s)"

text \<open>
  The \<open>while\<close> loop of one configuration. It ends only by a successful validation or by
  a clock reading at or past the deadline, so it is a partial function: \<open>None\<close> is the
  run that never leaves the loop.
\<close>

partial_function (option) attempt_loop ::
    "config \<Rightarrow> real \<Rightarrow> world \<Rightarrow> (internal_placement option \<times> world) option" where
  "attempt_loop cfg start_time s =
     (case time_time s of (t, s) \<Rightarrow>
        if t - start_time < VALIDATION_TIME_LIMIT - 0.2
        then (case outer_attempt cfg s of
                (Some positions, s') \<Rightarrow> Some (Some positions, s')
              | (None, s') \<Rightarrow> attempt_loop cfg start_time s')
        else Some (None, s))"

text \<open>The \<open>for\<close> loop over the shuffled configurations, and the function itself.\<close>

fun config_loop :: "config list \<Rightarrow> real \<Rightarrow> world
                     \<Rightarrow> (internal_placement option \<times> world) option" where
  "config_loop [] start_time s = Some (None, s)"
| "config_loop (cfg # cfgs) start_time s =
     (case attempt_loop cfg start_time s of
        None \<Rightarrow> None
      | Some (Some positions, s') \<Rightarrow> Some (Some positions, s')
      | Some (None, s') \<Rightarrow> config_loop cfgs start_time s')"

definition find_placement :: "world \<Rightarrow> (internal_placement option \<times> world) option" where
  "find_placement s =
     (let (start_time, s) = time_time s;
          (cfgs, s) = shuffle edge_configs s
      in config_loop cfgs start_time s)"

section \<open>Notions of the specification, and sample inputs\<close>

text \<open>
  The open interior of a rectangle and the area of the intersection of two rectangles,
  as the specification words the overlap test.
\<close>

definition interior :: "rect \<Rightarrow> (real \<times> real) set" where
  "interior r = {(px, py). rect_x r < px \<and> px < rect_x r + rect_w r \<and>
                           rect_y r < py \<and> py < rect_y r + rect_h r}"

definition intersection_area :: "rect \<Rightarrow> rect \<Rightarrow> real" where
  "intersection_area a b =
     max 0 (min (rect_x a + rect_w a) (rect_x b + rect_w b) - max (rect_x a) (rect_x b)) *
     max 0 (min (rect_y a + rect_h a) (rect_y b + rect_h b) - max (rect_y a) (rect_y b))"

text \<open>
  The board edges in the priority order of the specification (top is \<open>y = 0\<close>), the edges
  a component touches, and the zone the specification describes for an edge: 10 wide
  along the edge, centered on the USB connector's center, 20 deep inward.
\<close>

datatype board_edge = TopEdge | BottomEdge | LeftEdge | RightEdge

fun touches :: "rect \<Rightarrow> board_edge \<Rightarrow> bool" where
  "touches c TopEdge = (rect_y c = 0)"
| "touches c BottomEdge = (rect_y c + rect_h c = 50)"
| "touches c LeftEdge = (rect_x c = 0)"
| "touches c RightEdge = (rect_x c + rect_w c = 50)"

fun zone_on :: "board_edge \<Rightarrow> rect \<Rightarrow> rect" where
  "zone_on TopEdge usb =
     \<lparr>rect_x = fst (get_center usb) - 5, rect_y = 0, rect_w = 10, rect_h = 20\<rparr>"
| "zone_on BottomEdge usb =
     \<lparr>rect_x = fst (get_center usb) - 5, rect_y = 50 - 20, rect_w = 10, rect_h = 20\<rparr>"
| "zone_on LeftEdge usb =
     \<lparr>rect_x = 0, rect_y = snd (get_center usb) - 5, rect_w = 20, rect_h = 10\<rparr>"
| "zone_on RightEdge usb =
     \<lparr>rect_x = 50 - 20, rect_y = snd (get_center usb) - 5, rect_w = 20, rect_h = 10\<rparr>"

definition edge_priority :: "board_edge list" where
  "edge_priority = [TopEdge, BottomEdge, LeftEdge, RightEdge]"

definition touched_edges :: "rect \<Rightarrow> board_edge list" where
  "touched_edges c = filter (touches c) edge_priority"

text \<open>Exchanging the components bound to the two MIKROBUS names.\<close>

definition swap_mikrobus :: "placement \<Rightarrow> placement" where
  "swap_mikrobus placement =
     dict_set MIKROBUS_CONNECTOR_2 (dict_get placement MIKROBUS_CONNECTOR_1)
       (dict_set MIKROBUS_CONNECTOR_1 (dict_get placement MIKROBUS_CONNECTOR_2) placement)"

definition dict_keys :: "('k, 'v) dict \<Rightarrow> 'k list" where
  "dict_keys d = map fst d"

text \<open>
  Sample placements: one that passes every rule; the same with a sixth component; one
  without the crystal; one with the USB connector in the corner (0, 0); one with the
  USB connector away from every edge.
\<close>

definition sample_placement :: placement where
  "sample_placement =
     [(MIKROBUS_CONNECTOR_1, \<lparr>rect_x = 0, rect_y = 20, rect_w = 15, rect_h = 5\<rparr>),
      (MIKROBUS_CONNECTOR_2, \<lparr>rect_x = 35, rect_y = 20, rect_w = 15, rect_h = 5\<rparr>),
      (USB_CONNECTOR, \<lparr>rect_x = 20, rect_y = 0, rect_w = 5, rect_h = 5\<rparr>),
      (MICROCONTROLLER, \<lparr>rect_x = 23, rect_y = 36, rect_w = 5, rect_h = 5\<rparr>),
      (CRYSTAL, \<lparr>rect_x = 29, rect_y = 36, rect_w = 5, rect_h = 5\<rparr>)]"

definition six_placement :: placement where
  "six_placement =
     dict_set ''LED'' \<lparr>rect_x = 23, rect_y = 20, rect_w = 5, rect_h = 5\<rparr> sample_placement"

definition four_placement :: placement where
  "four_placement =
     [(MIKROBUS_CONNECTOR_1, \<lparr>rect_x = 0, rect_y = 20, rect_w = 15, rect_h = 5\<rparr>),
      (MIKROBUS_CONNECTOR_2, \<lparr>rect_x = 35, rect_y = 20, rect_w = 15, rect_h = 5\<rparr>),
      (USB_CONNECTOR, \<lparr>rect_x = 20, rect_y = 0, rect_w = 5, rect_h = 5\<rparr>),
      (MICROCONTROLLER, \<lparr>rect_x = 23, rect_y = 36, rect_w = 5, rect_h = 5\<rparr>)]"

definition corner_placement :: placement where
  "corner_placement =
     [(MIKROBUS_CONNECTOR_1, \<lparr>rect_x = 0, rect_y = 20, rect_w = 15, rect_h = 5\<rparr>),
      (MIKROBUS_CONNECTOR_2, \<lparr>rect_x = 35, rect_y = 20, rect_w = 15, rect_h = 5\<rparr>),
      (USB_CONNECTOR, \<lparr>rect_x = 0, rect_y = 0, rect_w = 5, rect_h = 5\<rparr>),
      (MICROCONTROLLER, \<lparr>rect_x = 23, rect_y = 36, rect_w = 5, rect_h = 5\<rparr>),
      (CRYSTAL, \<lparr>rect_x = 29, rect_y = 36, rect_w = 5, rect_h = 5\<rparr>)]"

definition inner_placement :: placement where
  "inner_placement =
     [(MIKROBUS_CONNECTOR_1, \<lparr>rect_x = 0, rect_y = 20, rect_w = 15, rect_h = 5\<rparr>),
      (MIKROBUS_CONNECTOR_2, \<lparr>rect_x = 35, rect_y = 20, rect_w = 15, rect_h = 5\<rparr>),
      (USB_CONNECTOR, \<lparr>rect_x = 20, rect_y = 10, rect_w = 5, rect_h = 5\<rparr>),
      (MICROCONTROLLER, \<lparr>rect_x = 23, rect_y = 36, rect_w = 5, rect_h = 5\<rparr>),
      (CRYSTAL, \<lparr>rect_x = 29, rect_y = 36, rect_w = 5, rect_h = 5\<rparr>)]"

definition touching_a :: rect where
  "touching_a = \<lparr>rect_x = 0, rect_y = 0, rect_w = 5, rect_h = 5\<rparr>"

definition touching_b :: rect where
  "touching_b = \<lparr>rect_x = 5, rect_y = 0, rect_w = 5, rect_h = 5\<rparr>"

text \<open>The three edge components of the sample, in the solver's format.\<close>

definition sample_edges :: internal_placement where
  "sample_edges = [(Mikrobus1, (0, 20, 90)), (Mikrobus2, (35, 20, 90)), (Usb, (20, 0, 0))]"

text \<open>
  A world in which the first attempt of the first configuration succeeds, and the
  placement it finds (the sample placement, in the solver's format).
\<close>

definition sample_positions :: internal_placement where
  "sample_positions = [(Mikrobus1, (0, 20, 90)), (Mikrobus2, (35, 20, 90)), (Usb, (20, 0, 0)),
                       (Micro, (23, 36, 0)), (Xtal, (29, 36, 0))]"

definition success_world :: world where
  "success_world = \<lparr>now = 0, read_delays = sconst 0, durations = sconst 1,
     int_draws = 3 ## 2 ## 1 ## 20 ## 20 ## 20 ## sconst 0,
     float_draws = 1 / 2 ## 1 / 2 ## 0 ## 3 / 5 ## sconst 0, stdout = []\<rparr>"

text \<open>
  Notions used to state the claims about time. A stream of durations lies within bounds;
  the time \<open>find_placement\<close> takes (None when it does not return); the state reached
  by one pass of the inner loop.
\<close>

definition all_within :: "real \<Rightarrow> real \<Rightarrow> real stream \<Rightarrow> bool" where
  "all_within lo hi ds = (\<forall>d \<in> sset ds. lo \<le> d \<and> d \<le> hi)"

definition elapsed_time :: "world \<Rightarrow> real option" where
  "elapsed_time s = map_option (\<lambda>(r, s'). now s' - now s) (find_placement s)"

definition attempt_step :: "real \<times> real \<Rightarrow> internal_placement \<Rightarrow> world \<Rightarrow> world" where
  "attempt_step tgt p s =
     elapse (snd (call_validate (convert_to_util_format (fst (place_internal tgt p s)))
                                (snd (place_internal tgt p s))))"

text \<open>
  \<open>first_candidate cfg s\<close> is the first placement that the body of the \<open>while\<close> loop
  builds and validates for the configuration \<open>cfg\<close> from the state \<open>s\<close>.
\<close>

definition first_candidate :: "config \<Rightarrow> world \<Rightarrow> placement" where
  "first_candidate cfg s =
     (let (positions, s) = place_mikrobus (fst cfg) s;
          (positions, s) = place_usb (snd cfg) positions s;
          (positions, s) = place_internal (target_center positions) positions s
      in convert_to_util_format positions)"

text \<open>
  Worlds in which every random draw is zero and every inner attempt takes one second.
  With zero draws the shuffled order is \<open>shuffled_by_zeros\<close>, and the crystal is placed
  on the microcontroller, at \<open>zero_draw_pos\<close>, so every validation fails. In
  \<open>slow_world\<close> the clock is never set back; in \<open>rewound_world\<close> it is set back by 100
  seconds after its third reading.
\<close>

definition shuffled_by_zeros :: "config list" where
  "shuffled_by_zeros = [(''v'', ''bottom''), (''h'', ''left''), (''h'', ''right''), (''v'', ''top'')]"

definition zero_draw_pos :: "real \<times> real \<Rightarrow> pos" where
  "zero_draw_pos tgt = (real_of_int (py_int (fst tgt - 15 / 2)),
                        real_of_int (py_int (snd tgt - 15 / 2)), 0)"

definition slow_world :: world where
  "slow_world = \<lparr>now = 0, read_delays = sconst 0, durations = sconst 1,
                  int_draws = sconst 0, float_draws = sconst 0, stdout = []\<rparr>"

definition rewound_world :: world where
  "rewound_world = \<lparr>now = 0, read_delays = 0 ## 0 ## (- 100) ## sconst 0,
                     durations = sconst 1, int_draws = sconst 0, float_draws = sconst 0,
                     stdout = []\<rparr>"

section \<open>Basic facts\<close>

lemmas names =
  USB_CONNECTOR_def MICROCONTROLLER_def CRYSTAL_def
  MIKROBUS_CONNECTOR_1_def MIKROBUS_CONNECTOR_2_def

lemma map_of_dict_set: "map_of (dict_set k v d) = (map_of d)(k \<mapsto> v)"
  by (induction d) (auto simp: fun_eq_iff)

lemma dict_get_dict_set: "dict_get (dict_set k v d) k' = (if k' = k then v else dict_get d k')"
  by (simp add: dict_get_def map_of_dict_set)

lemma dict_has_dict_set: "dict_has (dict_set k v d) k' = (k' = k \<or> dict_has d k')"
  by (simp add: dict_has_def map_of_dict_set)

lemma sqrt_le_numeral: "sqrt a \<le> 10 \<longleftrightarrow> a \<le> 100"  "sqrt a \<le> 2 \<longleftrightarrow> a \<le> 4"
  using real_sqrt_le_iff[of a 100] real_sqrt_le_iff[of a 4] by simp_all

lemma py_int_of_int [simp]: "py_int (real_of_int k) = k"
  by (simp add: py_int_def)

lemma shuffle_from_numeral:
  "shuffle_from (numeral k) xs s =
     (let (j, s) = randbelow (numeral k + 1) s
      in shuffle_from (pred_numeral k) (xs[numeral k := xs ! j, j := xs ! numeral k]) s)"
  by (simp add: numeral_eq_Suc)

lemmas rule_defs =
  dict_values_def all_in_bounds_def in_bounds_def BOARD_DIMS_def overlap_found_def
  rects_overlap_def all_on_edge_def on_edge_def dict_get_def is_parallel_def
  proximity_dist_def distance_def get_center_def PROXIMITY_RADIUS_def sqrt_le_numeral
  com_dist_def center_of_mass_def CENTER_OF_MASS_RADIUS_def intersects_def crosses_zone_def
  keepout_zone_def KEEPOUT_ZONE_DIMS_def intersect_def ccw_def power2_eq_square

section \<open>The validator\<close>

lemma validate_lines:
  assumes "list_all (dict_has placement) required_keys"
  shows "snd (validate_placement placement) =
     [Banner,
      RuleLine ''Boundary Constraint'' (all_in_bounds placement) NoMsg,
      RuleLine ''No Overlapping'' (\<not> overlap_found placement) NoMsg,
      RuleLine ''Edge Placement'' (all_on_edge placement) NoMsg,
      RuleLine ''Parallel Placement'' (is_parallel placement) NoMsg,
      RuleLine ''Proximity Constraint'' (proximity_dist placement \<le> PROXIMITY_RADIUS)
        (ActualDistance (proximity_dist placement)),
      RuleLine ''Global Balance'' (com_dist placement \<le> CENTER_OF_MASS_RADIUS)
        (CoMDist (com_dist placement)),
      RuleLine ''Keep-Out Zone'' (\<not> intersects placement) NoMsg]"
  using assms by (simp add: validate_placement_def rule_results_def Let_def)

lemma validate_result:
  assumes "list_all (dict_has placement) required_keys"
  shows "fst (validate_placement placement) =
     (all_in_bounds placement \<and> \<not> overlap_found placement \<and> all_on_edge placement \<and>
      is_parallel placement \<and> proximity_dist placement \<le> PROXIMITY_RADIUS \<and>
      com_dist placement \<le> CENTER_OF_MASS_RADIUS \<and> \<not> intersects placement)"
  using assms by (simp add: validate_placement_def rule_results_def dict_values_def Let_def)

lemma sample_has_keys: "list_all (dict_has sample_placement) required_keys"
  by (simp add: sample_placement_def required_keys_def dict_has_def names)

lemma sample_valid: "fst (validate_placement sample_placement)"
  unfolding validate_result[OF sample_has_keys]
  by (simp add: sample_placement_def names rule_defs)

lemma six_has_keys: "list_all (dict_has six_placement) required_keys"
  by (simp add: six_placement_def sample_placement_def required_keys_def dict_has_def names)

lemma six_valid: "fst (validate_placement six_placement)"
  unfolding validate_result[OF six_has_keys]
  by (simp add: six_placement_def sample_placement_def names rule_defs)

lemma corner_has_keys: "list_all (dict_has corner_placement) required_keys"
  by (simp add: corner_placement_def required_keys_def dict_has_def names)

subsection \<open>Missing components\<close>

text \<open>
  Claim C2, as amended. A placement that lacks one of the five required names makes
  \<open>validate_placement\<close> return False after printing the banner and the
  missing-component message only: no rule line is printed, no rule is evaluated.
  (The claim as written also covers placements with additional names; for those the
  rules are evaluated, see the counterexample below.)
\<close>

theorem validate_missing_component:
  assumes "\<not> list_all (dict_has placement) required_keys"
  shows "validate_placement placement = (False, [Banner, MissingComponents])"
  using assms by (simp add: validate_placement_def)

theorem validate_missing_component_witness:
  "\<not> list_all (dict_has four_placement) required_keys \<and>
   validate_placement four_placement = (False, [Banner, MissingComponents])"
proof -
  have k: "\<not> list_all (dict_has four_placement) required_keys"
    by (simp add: four_placement_def required_keys_def dict_has_def names)
  show ?thesis using validate_missing_component [OF k] k by simp
qed

text \<open>
  A placement with the five required components and a sixth one named LED does not have
  exactly the five required names, yet the validator prints the banner and seven rule
  lines and returns True.
\<close>

theorem validate_extra_component_counterexample:
  "set (dict_keys six_placement) \<noteq> set required_keys \<and>
   validate_placement six_placement \<noteq> (False, [Banner, MissingComponents]) \<and>
   fst (validate_placement six_placement) \<and>
   length (snd (validate_placement six_placement)) = 8"
proof -
  have "''LED'' \<in> set (dict_keys six_placement)"
    by (simp add: six_placement_def sample_placement_def dict_keys_def names)
  moreover have "''LED'' \<notin> set required_keys"
    by (simp add: required_keys_def names)
  ultimately have "set (dict_keys six_placement) \<noteq> set required_keys" by blast
  moreover have "length (snd (validate_placement six_placement)) = 8"
    by (simp add: validate_lines[OF six_has_keys])
  ultimately show ?thesis using six_valid by auto
qed

subsection \<open>All seven rules\<close>

text \<open>
  Claim C3. For a placement with the five required names, \<open>validate_placement\<close> prints
  one line for each of the seven rules, each with that rule's own result whatever the
  results of the others, and returns the conjunction of the seven results.
\<close>

theorem validate_evaluates_all_rules:
  assumes "list_all (dict_has placement) required_keys"
  shows "validate_placement placement =
     (all_in_bounds placement \<and> \<not> overlap_found placement \<and> all_on_edge placement \<and>
      is_parallel placement \<and> proximity_dist placement \<le> PROXIMITY_RADIUS \<and>
      com_dist placement \<le> CENTER_OF_MASS_RADIUS \<and> \<not> intersects placement,
      [Banner,
       RuleLine ''Boundary Constraint'' (all_in_bounds placement) NoMsg,
       RuleLine ''No Overlapping'' (\<not> overlap_found placement) NoMsg,
       RuleLine ''Edge Placement'' (all_on_edge placement) NoMsg,
       RuleLine ''Parallel Placement'' (is_parallel placement) NoMsg,
       RuleLine ''Proximity Constraint'' (proximity_dist placement \<le> PROXIMITY_RADIUS)
         (ActualDistance (proximity_dist placement)),
       RuleLine ''Global Balance'' (com_dist placement \<le> CENTER_OF_MASS_RADIUS)
         (CoMDist (com_dist placement)),
       RuleLine ''Keep-Out Zone'' (\<not> intersects placement) NoMsg])"
  using validate_lines[OF assms] validate_result[OF assms]
  by (simp add: prod_eq_iff)

text \<open>
  With the USB connector in the corner the balance rule fails; the keep-out rule after
  it is still reported, and the overall result is False.
\<close>

theorem validate_evaluates_all_rules_witness:
  "list_all (dict_has corner_placement) required_keys \<and>
   map (\<lambda>l. case l of RuleLine rule ok m \<Rightarrow> ok | _ \<Rightarrow> True)
       (snd (validate_placement corner_placement))
     = [True, True, True, True, True, True, False, True] \<and>
   fst (validate_placement corner_placement) = False"
  unfolding validate_evaluates_all_rules [OF corner_has_keys]
  by (simp add: corner_has_keys) (simp add: corner_placement_def names rule_defs)

subsection \<open>The overlap test\<close>

lemma overlap_point:
  assumes "rects_overlap a b" "0 < rect_w a" "0 < rect_h a" "0 < rect_w b" "0 < rect_h b"
  shows "((max (rect_x a) (rect_x b) + min (rect_x a + rect_w a) (rect_x b + rect_w b)) / 2,
          (max (rect_y a) (rect_y b) + min (rect_y a + rect_h a) (rect_y b + rect_h b)) / 2)
          \<in> interior a \<inter> interior b"
  using assms by (auto simp: rects_overlap_def interior_def max_def min_def)

lemma interior_overlap:
  assumes "p \<in> interior a" "p \<in> interior b"
  shows "rects_overlap a b"
  using assms by (cases p) (auto simp: rects_overlap_def interior_def)

lemma interval_length_pos:
  fixes l1 r1 l2 r2 :: real
  assumes "l1 < r1" "l2 < r2"
  shows "0 < max 0 (min r1 r2 - max l1 l2) \<longleftrightarrow> (l1 < r2 \<and> l2 < r1)"
  using assms by (auto simp: max_def min_def)

lemma overlap_area:
  assumes "0 < rect_w a" "0 < rect_h a" "0 < rect_w b" "0 < rect_h b"
  shows "rects_overlap a b \<longleftrightarrow> 0 < intersection_area a b"
proof -
  have ix: "0 < max 0 (min (rect_x a + rect_w a) (rect_x b + rect_w b) - max (rect_x a) (rect_x b))
        \<longleftrightarrow> (rect_x a < rect_x b + rect_w b \<and> rect_x b < rect_x a + rect_w a)"
    using assms by (intro interval_length_pos) simp_all
  have iy: "0 < max 0 (min (rect_y a + rect_h a) (rect_y b + rect_h b) - max (rect_y a) (rect_y b))
        \<longleftrightarrow> (rect_y a < rect_y b + rect_h b \<and> rect_y b < rect_y a + rect_h a)"
    using assms by (intro interval_length_pos) simp_all
  have nn: "\<not> max 0 u < (0::real)" for u by simp
  have "0 < intersection_area a b \<longleftrightarrow>
        (rect_x a < rect_x b + rect_w b \<and> rect_x b < rect_x a + rect_w a) \<and>
        (rect_y a < rect_y b + rect_h b \<and> rect_y b < rect_y a + rect_h a)"
    unfolding intersection_area_def zero_less_mult_iff ix iy using nn by blast
  also have "\<dots> \<longleftrightarrow> rects_overlap a b"
    unfolding rects_overlap_def by auto
  finally show ?thesis by simp
qed

text \<open>
  Claim C4. For two rectangles of positive width and height, the pairwise test of the
  no-overlap rule holds exactly when their open interiors have a common point, and
  exactly when their intersection has positive area; so rectangles that share only an
  edge or a corner are not flagged.
\<close>

theorem rects_overlap_iff_open_interiors:
  assumes "0 < rect_w a" "0 < rect_h a" "0 < rect_w b" "0 < rect_h b"
  shows "(rects_overlap a b \<longleftrightarrow> interior a \<inter> interior b \<noteq> {}) \<and>
         (rects_overlap a b \<longleftrightarrow> 0 < intersection_area a b)"
proof -
  have "rects_overlap a b \<Longrightarrow> interior a \<inter> interior b \<noteq> {}"
    using overlap_point[OF _ assms] by blast
  moreover have "interior a \<inter> interior b \<noteq> {} \<Longrightarrow> rects_overlap a b"
    using interior_overlap by blast
  ultimately show ?thesis using overlap_area[OF assms] by blast
qed

text \<open>The rectangles over x in [0, 5] and x in [5, 10], same y-range, share an edge only.\<close>

theorem rects_overlap_iff_open_interiors_witness:
  "0 < rect_w touching_a \<and> 0 < rect_h touching_a \<and>
   0 < rect_w touching_b \<and> 0 < rect_h touching_b \<and>
   \<not> rects_overlap touching_a touching_b \<and>
   interior touching_a \<inter> interior touching_b = {} \<and>
   intersection_area touching_a touching_b = 0"
proof -
  have p: "0 < rect_w touching_a" "0 < rect_h touching_a"
          "0 < rect_w touching_b" "0 < rect_h touching_b"
    by (simp_all add: touching_a_def touching_b_def)
  have n: "\<not> rects_overlap touching_a touching_b"
    by (simp add: rects_overlap_def touching_a_def touching_b_def)
  have z: "intersection_area touching_a touching_b = 0"
    by (simp add: intersection_area_def touching_a_def touching_b_def)
  show ?thesis
    using rects_overlap_iff_open_interiors [OF p] p n z by simp
qed

subsection \<open>The keep-out zone\<close>

lemma keepout_zone_first_touched:
  "touched_edges usb \<noteq> [] \<Longrightarrow> keepout_zone usb = zone_on (hd (touched_edges usb)) usb"
  by (auto simp: touched_edges_def edge_priority_def keepout_zone_def KEEPOUT_ZONE_DIMS_def
           split: if_splits)

lemma keepout_zone_no_edge:
  "touched_edges usb = [] \<Longrightarrow> keepout_zone usb = zone_on RightEdge usb"
  by (auto simp: touched_edges_def edge_priority_def keepout_zone_def KEEPOUT_ZONE_DIMS_def
           split: if_splits)

text \<open>
  Claim C5. When the USB connector touches a board edge (one, or several as in a
  corner), the zone that \<open>validate_placement\<close> computes is the zone of the first touched
  edge in the order top, bottom, left, right: 10 wide along that edge, centered on the
  connector's center, 20 deep inward; and the keep-out rule is reported for that zone.
\<close>

theorem keepout_zone_priority:
  assumes "list_all (dict_has placement) required_keys"
      and "usb = dict_get placement USB_CONNECTOR"
      and "touched_edges usb \<noteq> []"
  shows "keepout_zone usb = zone_on (hd (touched_edges usb)) usb \<and>
         RuleLine ''Keep-Out Zone''
           (\<not> crosses_zone (get_center (dict_get placement CRYSTAL))
                           (get_center (dict_get placement MICROCONTROLLER))
                           (zone_on (hd (touched_edges usb)) usb)) NoMsg
           \<in> set (snd (validate_placement placement))"
  using assms keepout_zone_first_touched[of usb]
  by (simp add: validate_lines intersects_def)

theorem keepout_zone_priority_witness:
  "list_all (dict_has corner_placement) required_keys \<and>
   touched_edges (dict_get corner_placement USB_CONNECTOR) = [TopEdge, LeftEdge] \<and>
   keepout_zone (dict_get corner_placement USB_CONNECTOR)
     = \<lparr>rect_x = - 5 / 2, rect_y = 0, rect_w = 10, rect_h = 20\<rparr>"
proof -
  have u: "dict_get corner_placement USB_CONNECTOR
             = \<lparr>rect_x = 0, rect_y = 0, rect_w = 5, rect_h = 5\<rparr>"
    by (simp add: corner_placement_def dict_get_def names)
  have t: "touched_edges (dict_get corner_placement USB_CONNECTOR) = [TopEdge, LeftEdge]"
    unfolding u by (simp add: touched_edges_def edge_priority_def)
  show ?thesis
    using keepout_zone_priority [OF corner_has_keys refl, unfolded t] corner_has_keys t
    by (simp add: u get_center_def)
qed

text \<open>
  Claim C10. When the USB connector touches no board edge, the final branch is taken:
  the zone spans x from 30 to 50 and is centered vertically on the connector's center,
  which is the zone of the right edge, and the keep-out rule is reported for it.
\<close>

theorem keepout_zone_default_right:
  assumes "list_all (dict_has placement) required_keys"
      and "usb = dict_get placement USB_CONNECTOR"
      and "touched_edges usb = []"
  shows "keepout_zone usb
           = \<lparr>rect_x = 30, rect_y = snd (get_center usb) - 5, rect_w = 20, rect_h = 10\<rparr> \<and>
         keepout_zone usb = zone_on RightEdge usb \<and>
         RuleLine ''Keep-Out Zone''
           (\<not> crosses_zone (get_center (dict_get placement CRYSTAL))
                           (get_center (dict_get placement MICROCONTROLLER))
                           \<lparr>rect_x = 30, rect_y = snd (get_center usb) - 5,
                            rect_w = 20, rect_h = 10\<rparr>) NoMsg
           \<in> set (snd (validate_placement placement))"
proof -
  have m: "keepout_zone usb = zone_on RightEdge usb"
    using keepout_zone_no_edge[OF assms(3)] .
  then have z: "keepout_zone usb
      = \<lparr>rect_x = 30, rect_y = snd (get_center usb) - 5, rect_w = 20, rect_h = 10\<rparr>"
    by simp
  show ?thesis
    using assms(1,2) z m by (simp add: validate_lines intersects_def)
qed

theorem keepout_zone_default_right_witness:
  "list_all (dict_has inner_placement) required_keys \<and>
   touched_edges (dict_get inner_placement USB_CONNECTOR) = [] \<and>
   keepout_zone (dict_get inner_placement USB_CONNECTOR)
     = \<lparr>rect_x = 30, rect_y = 15 / 2, rect_w = 20, rect_h = 10\<rparr>"
proof -
  have k: "list_all (dict_has inner_placement) required_keys"
    by (simp add: inner_placement_def required_keys_def dict_has_def names)
  have u: "dict_get inner_placement USB_CONNECTOR
             = \<lparr>rect_x = 20, rect_y = 10, rect_w = 5, rect_h = 5\<rparr>"
    by (simp add: inner_placement_def dict_get_def names)
  have t: "touched_edges (dict_get inner_placement USB_CONNECTOR) = []"
    unfolding u by (simp add: touched_edges_def edge_priority_def)
  show ?thesis
    using keepout_zone_default_right [OF k refl t] k t
    by (simp add: u get_center_def)
qed

subsection \<open>The parallel-placement rule\<close>

text \<open>
  Claim C8. For a placement with the five required names, exchanging the components
  bound to MIKROBUS\_CONNECTOR\_1 and MIKROBUS\_CONNECTOR\_2 leaves the result of the
  parallel-placement rule unchanged.
\<close>

theorem parallel_swap_symmetric:
  assumes "list_all (dict_has placement) required_keys"
  shows "list_all (dict_has (swap_mikrobus placement)) required_keys \<and>
         dict_get (swap_mikrobus placement) MIKROBUS_CONNECTOR_1
           = dict_get placement MIKROBUS_CONNECTOR_2 \<and>
         dict_get (swap_mikrobus placement) MIKROBUS_CONNECTOR_2
           = dict_get placement MIKROBUS_CONNECTOR_1 \<and>
         is_parallel (swap_mikrobus placement) = is_parallel placement"
proof -
  have ne: "MIKROBUS_CONNECTOR_1 \<noteq> MIKROBUS_CONNECTOR_2" by (simp add: names)
  have g1: "dict_get (swap_mikrobus placement) MIKROBUS_CONNECTOR_1
              = dict_get placement MIKROBUS_CONNECTOR_2"
    using ne by (simp add: swap_mikrobus_def dict_get_dict_set)
  have g2: "dict_get (swap_mikrobus placement) MIKROBUS_CONNECTOR_2
              = dict_get placement MIKROBUS_CONNECTOR_1"
    by (simp add: swap_mikrobus_def dict_get_dict_set)
  have h: "list_all (dict_has (swap_mikrobus placement)) required_keys"
    using assms by (simp add: swap_mikrobus_def dict_has_dict_set list_all_iff)
  have "is_parallel (swap_mikrobus placement) = is_parallel placement"
    unfolding is_parallel_def g1 g2 Let_def by auto
  with g1 g2 h show ?thesis by simp
qed

theorem parallel_swap_symmetric_witness:
  "list_all (dict_has sample_placement) required_keys \<and>
   is_parallel sample_placement \<and> is_parallel (swap_mikrobus sample_placement)"
proof -
  have "is_parallel sample_placement"
    by (simp add: sample_placement_def names is_parallel_def dict_get_def)
  then show ?thesis
    using parallel_swap_symmetric [OF sample_has_keys] sample_has_keys by simp
qed

section \<open>The search\<close>

subsection \<open>The target center\<close>

text \<open>
  Claim C7. Whatever the positions (hence the centers) of the two MIKROBUS connectors
  and the USB connector, if the centers of the microcontroller and of the crystal both
  equal the target center that the search derives from them, then the average of the
  five centers, as the validator computes it, is exactly (25, 25).
\<close>

theorem balance_closed_form:
  assumes "positions = [(Mikrobus1, p1), (Mikrobus2, p2), (Usb, p3)]"
      and "get_center_from_pos Micro mc_pos = target_center positions"
      and "get_center_from_pos Xtal cr_pos = target_center positions"
  shows "center_of_mass (convert_to_util_format
           (dict_set Xtal cr_pos (dict_set Micro mc_pos positions))) = (25, 25)"
proof -
  obtain x1 y1 r1 where p1: "p1 = (x1, y1, r1)" by (cases p1)
  obtain x2 y2 r2 where p2: "p2 = (x2, y2, r2)" by (cases p2)
  obtain x3 y3 r3 where p3: "p3 = (x3, y3, r3)" by (cases p3)
  obtain x4 y4 r4 where p4: "mc_pos = (x4, y4, r4)" by (cases mc_pos)
  obtain x5 y5 r5 where p5: "cr_pos = (x5, y5, r5)" by (cases cr_pos)
  show ?thesis
    using assms(2,3) unfolding assms(1) p1 p2 p3 p4 p5
    by (simp add: center_of_mass_def convert_to_util_format_def target_center_def
          get_center_from_pos_def rotated_size_def get_center_def dict_values_def names
          split: if_splits)
qed

theorem balance_closed_form_witness:
  "get_center_from_pos Micro (95 / 4, 145 / 4, 0) = target_center sample_edges \<and>
   get_center_from_pos Xtal (95 / 4, 145 / 4, 0) = target_center sample_edges \<and>
   target_center sample_edges = (105 / 4, 155 / 4) \<and>
   center_of_mass (convert_to_util_format
     (dict_set Xtal (95 / 4, 145 / 4, 0) (dict_set Micro (95 / 4, 145 / 4, 0) sample_edges)))
     = (25, 25)"
proof -
  have t: "target_center sample_edges = (105 / 4, 155 / 4)"
    by (simp add: target_center_def sample_edges_def get_center_from_pos_def rotated_size_def)
  have m: "get_center_from_pos Micro (95 / 4, 145 / 4, 0) = target_center sample_edges"
    unfolding t by (simp add: get_center_from_pos_def rotated_size_def)
  have c: "get_center_from_pos Xtal (95 / 4, 145 / 4, 0) = target_center sample_edges"
    unfolding t by (simp add: get_center_from_pos_def rotated_size_def)
  show ?thesis
    using balance_closed_form [OF sample_edges_def m c] m c t by simp
qed

subsection \<open>Only validated placements are returned\<close>

lemma inner_attempts_valid:
  "inner_attempts n target positions s = (Some p, s')
   \<Longrightarrow> fst (validate_placement (convert_to_util_format p))"
proof (induction n arbitrary: positions s)
  case 0
  then show ?case by simp
next
  case (Suc n)
  then show ?case
    by (auto simp: Let_def call_validate_def split: prod.splits if_splits)
qed

lemma outer_attempt_valid:
  "outer_attempt cfg s = (Some p, s') \<Longrightarrow> fst (validate_placement (convert_to_util_format p))"
  by (auto simp: outer_attempt_def Let_def split: prod.splits dest: inner_attempts_valid)

lemma attempt_loop_valid_aux:
  assumes "attempt_loop cfg start_time s = Some y"
  shows "case fst y of None \<Rightarrow> True
         | Some p \<Rightarrow> fst (validate_placement (convert_to_util_format p))"
proof (rule attempt_loop.raw_induct[OF _ assms])
  fix f cfg start_time s y
  assume IH: "\<And>cfg start_time s y. f cfg start_time s = Some y \<Longrightarrow>
                (case fst y of None \<Rightarrow> True
                 | Some p \<Rightarrow> fst (validate_placement (convert_to_util_format p)))"
    and step: "(case time_time s of (t, s) \<Rightarrow>
                  if t - start_time < VALIDATION_TIME_LIMIT - 0.2
                  then (case outer_attempt cfg s of
                          (Some positions, s') \<Rightarrow> Some (Some positions, s')
                        | (None, s') \<Rightarrow> f cfg start_time s')
                  else Some (None, s)) = Some y"
  show "case fst y of None \<Rightarrow> True
        | Some p \<Rightarrow> fst (validate_placement (convert_to_util_format p))"
  proof -
    obtain t s1 where tt: "time_time s = (t, s1)" by (cases "time_time s")
    obtain r s2 where oa: "outer_attempt cfg s1 = (r, s2)" by (cases "outer_attempt cfg s1")
    show ?thesis
    proof (cases "t - start_time < VALIDATION_TIME_LIMIT - 0.2")
      case False
      with step tt show ?thesis by auto
    next
      case True
      show ?thesis
      proof (cases r)
        case None
        with step tt oa True have "f cfg start_time s2 = Some y" by simp
        then show ?thesis by (rule IH)
      next
        case (Some p)
        with step tt oa True have "y = (Some p, s2)" by simp
        with oa Some show ?thesis by (simp add: outer_attempt_valid)
      qed
    qed
  qed
qed

lemma attempt_loop_valid:
  "attempt_loop cfg start_time s = Some (Some p, s')
   \<Longrightarrow> fst (validate_placement (convert_to_util_format p))"
  using attempt_loop_valid_aux[of cfg start_time s "(Some p, s')"] by simp

lemma config_loop_valid:
  "config_loop cfgs start_time s = Some (Some p, s')
   \<Longrightarrow> fst (validate_placement (convert_to_util_format p))"
proof (induction cfgs arbitrary: s)
  case Nil
  then show ?case by simp
next
  case (Cons cfg cfgs)
  then show ?case
    by (auto split: option.splits prod.splits dest: attempt_loop_valid)
qed

text \<open>
  Claim C1. Whatever the random draws and the clock, a placement that \<open>find_placement\<close>
  returns passes \<open>validate_placement\<close> after conversion to the utility format.
\<close>

theorem find_placement_returns_valid:
  assumes "find_placement s = Some (Some positions, s')"
  shows "fst (validate_placement (convert_to_util_format positions))"
  using assms
  by (auto simp: find_placement_def Let_def split: prod.splits dest: config_loop_valid)

subsection \<open>A run that succeeds\<close>

lemma sample_positions_convert: "convert_to_util_format sample_positions = sample_placement"
  by (simp add: convert_to_util_format_def sample_positions_def sample_placement_def
        rotated_size_def names)

lemma success_shuffle:
  "shuffle edge_configs
     \<lparr>now = 0, read_delays = sconst 0, durations = sconst 1,
      int_draws = 3 ## 2 ## 1 ## 20 ## 20 ## 20 ## sconst 0,
      float_draws = 1 / 2 ## 1 / 2 ## 0 ## 3 / 5 ## sconst 0, stdout = []\<rparr>
   = (edge_configs,
      \<lparr>now = 0, read_delays = sconst 0, durations = sconst 1,
       int_draws = 20 ## 20 ## 20 ## sconst 0,
       float_draws = 1 / 2 ## 1 / 2 ## 0 ## 3 / 5 ## sconst 0, stdout = []\<rparr>)"
  by (simp add: shuffle_def edge_configs_def randbelow_def shuffle_from_numeral)

lemma success_edges:
  "place_usb ''top'' (fst (place_mikrobus ''v'' 
     \<lparr>now = 0, read_delays = sconst 0, durations = sconst 1,
       int_draws = 20 ## 20 ## 20 ## sconst 0,
       float_draws = 1 / 2 ## 1 / 2 ## 0 ## 3 / 5 ## sconst 0, stdout = []\<rparr>))
     (snd (place_mikrobus ''v'' 
     \<lparr>now = 0, read_delays = sconst 0, durations = sconst 1,
       int_draws = 20 ## 20 ## 20 ## sconst 0,
       float_draws = 1 / 2 ## 1 / 2 ## 0 ## 3 / 5 ## sconst 0, stdout = []\<rparr>))
   = (sample_edges,
      \<lparr>now = 0, read_delays = sconst 0, durations = sconst 1,
       int_draws = sconst 0,
       float_draws = 1 / 2 ## 1 / 2 ## 0 ## 3 / 5 ## sconst 0, stdout = []\<rparr>)"
  by (simp add: place_mikrobus_def place_usb_def randint_def randbelow_def sample_edges_def)

lemma sample_target: "target_center sample_edges = (105 / 4, 155 / 4)"
  by (simp add: target_center_def sample_edges_def get_center_from_pos_def rotated_size_def)

lemma success_internal:
  "place_internal (105 / 4, 155 / 4) sample_edges
      \<lparr>now = 0, read_delays = sconst 0, durations = sconst 1,
       int_draws = sconst 0,
       float_draws = 1 / 2 ## 1 / 2 ## 0 ## 3 / 5 ## sconst 0, stdout = []\<rparr>
   = (sample_positions,
      \<lparr>now = 0, read_delays = sconst 0, durations = sconst 1,
       int_draws = sconst 0, float_draws = sconst 0, stdout = []\<rparr>)"
  by (simp add: place_internal_def uniform_def sample_edges_def sample_positions_def
        get_center_from_pos_def rotated_size_def PROXIMITY_RADIUS_def py_int_def)

lemma inner_attempts_100:
  "inner_attempts 100 target positions s =
     (let (positions, s) = place_internal target positions s;
          final_placement = convert_to_util_format positions;
          (ok, s) = call_validate final_placement s;
          s = elapse s
      in if ok then (Some positions, s)
         else inner_attempts 99 target positions s)"
  using inner_attempts.simps(2)[of 99 target positions s] by simp

lemma success_outer:
  "\<exists>s'. outer_attempt (''v'', ''top'')
      \<lparr>now = 0, read_delays = sconst 0, durations = sconst 1,
       int_draws = 20 ## 20 ## 20 ## sconst 0,
       float_draws = 1 / 2 ## 1 / 2 ## 0 ## 3 / 5 ## sconst 0, stdout = []\<rparr>
     = (Some sample_positions, s')"
proof -
  show ?thesis
    unfolding outer_attempt_def
    using success_edges
    by (simp add: split_beta Let_def sample_target inner_attempts_100
          success_internal call_validate_def sample_positions_convert sample_valid)
qed

lemma success_run: "\<exists>s'. find_placement success_world = Some (Some sample_positions, s')"
proof -
  obtain s' where o: "outer_attempt (''v'', ''top'')
      \<lparr>now = 0, read_delays = sconst 0, durations = sconst 1,
       int_draws = 20 ## 20 ## 20 ## sconst 0,
       float_draws = 1 / 2 ## 1 / 2 ## 0 ## 3 / 5 ## sconst 0, stdout = []\<rparr>
     = (Some sample_positions, s')"
    using success_outer by blast
  have l: "attempt_loop (''v'', ''top'') 0
      \<lparr>now = 0, read_delays = sconst 0, durations = sconst 1,
       int_draws = 20 ## 20 ## 20 ## sconst 0,
       float_draws = 1 / 2 ## 1 / 2 ## 0 ## 3 / 5 ## sconst 0, stdout = []\<rparr>
     = Some (Some sample_positions, s')"
    by (subst attempt_loop.simps) (simp add: time_time_def o VALIDATION_TIME_LIMIT_def)
  have "find_placement success_world = config_loop edge_configs 0
      \<lparr>now = 0, read_delays = sconst 0, durations = sconst 1,
       int_draws = 20 ## 20 ## 20 ## sconst 0,
       float_draws = 1 / 2 ## 1 / 2 ## 0 ## 3 / 5 ## sconst 0, stdout = []\<rparr>"
    by (simp add: find_placement_def success_world_def time_time_def
          success_shuffle[simplified])
  also have "\<dots> = Some (Some sample_positions, s')"
    by (simp add: edge_configs_def l)
  finally show ?thesis by blast
qed

theorem find_placement_returns_valid_witness:
  "map_option fst (find_placement success_world) = Some (Some sample_positions) \<and>
   fst (validate_placement (convert_to_util_format sample_positions))"
proof -
  obtain s' where r: "find_placement success_world = Some (Some sample_positions, s')"
    using success_run by blast
  show ?thesis
    using find_placement_returns_valid [OF r] r by simp
qed

subsection \<open>Time: what each step leaves unchanged, and how long the loops take\<close>

lemma all_within_shd: "all_within lo hi ds \<Longrightarrow> lo \<le> shd ds \<and> shd ds \<le> hi"
  by (simp add: all_within_def shd_sset)

lemma all_within_stl: "all_within lo hi ds \<Longrightarrow> all_within lo hi (stl ds)"
  by (auto simp: all_within_def dest: stl_sset)

lemma randbelow_frame:
  "now (snd (randbelow n s)) = now s"
  "durations (snd (randbelow n s)) = durations s"
  "read_delays (snd (randbelow n s)) = read_delays s"
  by (simp_all add: randbelow_def)

lemma randint_frame:
  "now (snd (randint a b s)) = now s"
  "durations (snd (randint a b s)) = durations s"
  "read_delays (snd (randint a b s)) = read_delays s"
  by (simp_all add: randint_def split_beta randbelow_frame)

lemma uniform_frame:
  "now (snd (uniform a b s)) = now s"
  "durations (snd (uniform a b s)) = durations s"
  "read_delays (snd (uniform a b s)) = read_delays s"
  by (simp_all add: uniform_def)

lemma place_mikrobus_frame:
  "now (snd (place_mikrobus ori s)) = now s"
  "durations (snd (place_mikrobus ori s)) = durations s"
  "read_delays (snd (place_mikrobus ori s)) = read_delays s"
  by (simp_all add: place_mikrobus_def split_beta Let_def randint_frame)

lemma place_usb_frame:
  "now (snd (place_usb e p s)) = now s"
  "durations (snd (place_usb e p s)) = durations s"
  "read_delays (snd (place_usb e p s)) = read_delays s"
  by (simp_all add: place_usb_def split_beta Let_def randint_frame)

lemma place_internal_frame:
  "now (snd (place_internal tgt p s)) = now s"
  "durations (snd (place_internal tgt p s)) = durations s"
  "read_delays (snd (place_internal tgt p s)) = read_delays s"
  by (simp_all add: place_internal_def split_beta Let_def uniform_frame)

lemma call_validate_frame:
  "now (snd (call_validate u s)) = now s"
  "durations (snd (call_validate u s)) = durations s"
  "read_delays (snd (call_validate u s)) = read_delays s"
  by (simp_all add: call_validate_def split_beta)

lemma shuffle_from_frame:
  "now (snd (shuffle_from i xs s)) = now s \<and>
   durations (snd (shuffle_from i xs s)) = durations s \<and>
   read_delays (snd (shuffle_from i xs s)) = read_delays s \<and>
   length (fst (shuffle_from i xs s)) = length xs"
  by (induction i arbitrary: xs s) (simp_all add: split_beta randbelow_frame)

lemma shuffle_frame:
  "now (snd (shuffle xs s)) = now s"
  "durations (snd (shuffle xs s)) = durations s"
  "read_delays (snd (shuffle xs s)) = read_delays s"
  "length (fst (shuffle xs s)) = length xs"
  by (simp_all add: shuffle_def shuffle_from_frame)

lemma attempt_step_time:
  "now (attempt_step tgt p s) = now s + shd (durations s)"
  "durations (attempt_step tgt p s) = stl (durations s)"
  "read_delays (attempt_step tgt p s) = read_delays s"
  by (simp_all add: attempt_step_def elapse_def call_validate_frame place_internal_frame)

lemma inner_attempts_Suc:
  "inner_attempts (Suc n) tgt p s =
     (if fst (call_validate (convert_to_util_format (fst (place_internal tgt p s)))
                            (snd (place_internal tgt p s)))
      then (Some (fst (place_internal tgt p s)), attempt_step tgt p s)
      else inner_attempts n tgt (fst (place_internal tgt p s)) (attempt_step tgt p s))"
  by (simp add: split_beta Let_def attempt_step_def)

lemma inner_attempts_time:
  assumes "all_within cmin cmax (durations s)" "0 < cmin"
  shows "now (snd (inner_attempts n tgt p s)) \<le> now s + real n * cmax \<and>
         (fst (inner_attempts n tgt p s) = None
            \<longrightarrow> now s + real n * cmin \<le> now (snd (inner_attempts n tgt p s))) \<and>
         all_within cmin cmax (durations (snd (inner_attempts n tgt p s))) \<and>
         read_delays (snd (inner_attempts n tgt p s)) = read_delays s"
  using assms(1)
proof (induction n arbitrary: p s)
  case 0
  then show ?case by simp
next
  case (Suc n)
  let ?s1 = "attempt_step tgt p s"
  let ?p1 = "fst (place_internal tgt p s)"
  have d: "cmin \<le> shd (durations s)" "shd (durations s) \<le> cmax"
    using all_within_shd[OF Suc.prems] by simp_all
  have w1: "all_within cmin cmax (durations ?s1)"
    using all_within_stl[OF Suc.prems] by (simp add: attempt_step_time)
  have cm: "0 \<le> cmax" using d assms(2) by linarith
  have n0: "0 \<le> real n * cmax" using cm by simp
  show ?case
  proof (cases "fst (call_validate (convert_to_util_format ?p1) (snd (place_internal tgt p s)))")
    case True
    then have e: "inner_attempts (Suc n) tgt p s = (Some ?p1, ?s1)"
      by (simp only: inner_attempts_Suc if_True)
    show ?thesis
      unfolding e using d w1 n0
      by (simp add: attempt_step_time algebra_simps)
  next
    case False
    then have e: "inner_attempts (Suc n) tgt p s = inner_attempts n tgt ?p1 ?s1"
      by (simp only: inner_attempts_Suc if_False)
    show ?thesis
      unfolding e using Suc.IH[OF w1, of ?p1] d
      by (auto simp: attempt_step_time algebra_simps)
  qed
qed

lemma outer_attempt_time:
  assumes "all_within cmin cmax (durations s)" "0 < cmin"
  shows "now (snd (outer_attempt cfg s)) \<le> now s + 100 * cmax \<and>
         (fst (outer_attempt cfg s) = None
            \<longrightarrow> now s + 100 * cmin \<le> now (snd (outer_attempt cfg s))) \<and>
         all_within cmin cmax (durations (snd (outer_attempt cfg s))) \<and>
         read_delays (snd (outer_attempt cfg s)) = read_delays s"
proof -
  let ?s1 = "snd (place_mikrobus (fst cfg) s)"
  let ?p1 = "fst (place_mikrobus (fst cfg) s)"
  let ?s2 = "snd (place_usb (snd cfg) ?p1 ?s1)"
  let ?p2 = "fst (place_usb (snd cfg) ?p1 ?s1)"
  have e: "outer_attempt cfg s = inner_attempts 100 (target_center ?p2) ?p2 ?s2"
    by (simp add: outer_attempt_def split_beta)
  have w: "all_within cmin cmax (durations ?s2)"
    using assms(1) by (simp add: place_usb_frame place_mikrobus_frame)
  show ?thesis
    unfolding e using inner_attempts_time[OF w assms(2), of 100 "target_center ?p2" ?p2]
    by (simp add: place_usb_frame place_mikrobus_frame)
qed

lemma time_time_simps:
  "fst (time_time s) = now s"
  "now (snd (time_time s)) = now s + shd (read_delays s)"
  "read_delays (snd (time_time s)) = stl (read_delays s)"
  "durations (snd (time_time s)) = durations s"
  by (simp_all add: time_time_def)

lemma attempt_loop_unfold:
  "attempt_loop cfg start_time s =
     (if now s - start_time < VALIDATION_TIME_LIMIT - 0.2
      then (case fst (outer_attempt cfg (snd (time_time s))) of
              Some positions \<Rightarrow> Some (Some positions, snd (outer_attempt cfg (snd (time_time s))))
            | None \<Rightarrow> attempt_loop cfg start_time (snd (outer_attempt cfg (snd (time_time s)))))
      else Some (None, snd (time_time s)))"
  by (subst attempt_loop.simps)
     (simp add: split_beta time_time_simps split: option.splits prod.splits)

lemma attempt_loop_returns:
  assumes "0 < cmin" 
  shows "all_within cmin cmax (durations s) \<Longrightarrow> all_within 0 emax (read_delays s) \<Longrightarrow>
         start_time + (VALIDATION_TIME_LIMIT - 0.2) - now s \<le> real k * (100 * cmin) \<Longrightarrow>
         \<exists>r s'. attempt_loop cfg start_time s = Some (r, s') \<and>
                now s' \<le> max (now s) (start_time + (VALIDATION_TIME_LIMIT - 0.2) + emax + 100 * cmax) + emax \<and>
                all_within cmin cmax (durations s') \<and> all_within 0 emax (read_delays s')"
proof (induction k arbitrary: s)
  case 0
  then have "\<not> now s - start_time < VALIDATION_TIME_LIMIT - 0.2" by simp
  then have e: "attempt_loop cfg start_time s = Some (None, snd (time_time s))"
    by (subst attempt_loop_unfold) simp
  have "shd (read_delays s) \<le> emax" using all_within_shd[OF "0.prems"(2)] by simp
  then show ?case
    unfolding e using "0.prems"(1) all_within_stl[OF "0.prems"(2)]
    by (simp add: time_time_simps)
next
  case (Suc k)
  let ?D = "start_time + (VALIDATION_TIME_LIMIT - 0.2)"
  let ?s1 = "snd (time_time s)"
  let ?s2 = "snd (outer_attempt cfg ?s1)"
  have rd: "0 \<le> shd (read_delays s)" "shd (read_delays s) \<le> emax"
    using all_within_shd[OF Suc.prems(2)] by simp_all
  have w1: "all_within cmin cmax (durations ?s1)"
    using Suc.prems(1) by (simp add: time_time_simps)
  have r1: "all_within 0 emax (read_delays ?s1)"
    using all_within_stl[OF Suc.prems(2)] by (simp add: time_time_simps)
  note oa = outer_attempt_time[OF w1 assms, of cfg]
  have r2: "all_within 0 emax (read_delays ?s2)" using oa r1 by simp
  have w2: "all_within cmin cmax (durations ?s2)" using oa by simp
  show ?case
  proof (cases "now s - start_time < VALIDATION_TIME_LIMIT - 0.2")
    case False
    then have e: "attempt_loop cfg start_time s = Some (None, ?s1)"
      by (subst attempt_loop_unfold) simp
    show ?thesis
      unfolding e using rd w1 r1 by (simp add: time_time_simps)
  next
    case True
    have up: "now ?s2 \<le> ?D + emax + 100 * cmax"
      using oa True rd by (simp add: time_time_simps)
    show ?thesis
    proof (cases "fst (outer_attempt cfg ?s1)")
      case (Some p)
      with True have e: "attempt_loop cfg start_time s = Some (Some p, ?s2)"
        by (subst attempt_loop_unfold) simp
      show ?thesis
        unfolding e using up w2 r2 rd by (simp add: max_def)
    next
      case None
      with True have e: "attempt_loop cfg start_time s = attempt_loop cfg start_time ?s2"
        by (subst attempt_loop_unfold) simp
      have lo: "now s + 100 * cmin \<le> now ?s2"
        using oa None rd by (simp add: time_time_simps)
      have "?D - now ?s2 \<le> real k * (100 * cmin)"
        using Suc.prems(3) lo by (simp add: algebra_simps)
      from Suc.IH[OF w2 r2 this] obtain r s' where
        l: "attempt_loop cfg start_time ?s2 = Some (r, s')" and
        b: "now s' \<le> max (now ?s2) (?D + emax + 100 * cmax) + emax" and
        i: "all_within cmin cmax (durations s')" "all_within 0 emax (read_delays s')"
        by blast
      have "now s' \<le> max (now s) (?D + emax + 100 * cmax) + emax"
        using b up by (simp add: max_def split: if_splits)
      then show ?thesis unfolding e using l i by blast
    qed
  qed
qed

lemma measure_exists:
  fixes g c :: real
  assumes "0 < c"
  shows "\<exists>k::nat. g \<le> real k * c"
proof -
  obtain k :: nat where "g < real k * c"
    using ex_less_of_nat_mult[OF assms, of g] by blast
  then show ?thesis by (intro exI[of _ k]) simp
qed

lemma config_loop_returns:
  assumes "0 < cmin"
  shows "all_within cmin cmax (durations s) \<Longrightarrow> all_within 0 emax (read_delays s) \<Longrightarrow>
         \<exists>r s'. config_loop cfgs start_time s = Some (r, s') \<and>
                now s' \<le> max (now s) (start_time + (VALIDATION_TIME_LIMIT - 0.2) + emax + 100 * cmax)
                           + real (length cfgs) * emax"
proof (induction cfgs arbitrary: s)
  case Nil
  then show ?case by simp
next
  case (Cons cfg cfgs)
  let ?B = "start_time + (VALIDATION_TIME_LIMIT - 0.2) + emax + 100 * cmax"
  have "0 < 100 * cmin" using assms by simp
  then obtain k :: nat where
    k: "start_time + (VALIDATION_TIME_LIMIT - 0.2) - now s \<le> real k * (100 * cmin)"
    using measure_exists by blast
  from attempt_loop_returns[OF assms Cons.prems k, of cfg] obtain r s1 where
    l: "attempt_loop cfg start_time s = Some (r, s1)" and
    b: "now s1 \<le> max (now s) ?B + emax" and
    i: "all_within cmin cmax (durations s1)" "all_within 0 emax (read_delays s1)"
    by blast
  have e0: "0 \<le> emax" using all_within_shd[OF Cons.prems(2)] by linarith
  show ?case
  proof (cases r)
    case (Some p)
    have "0 \<le> real (length cfgs) * emax" using e0 by simp
    then show ?thesis using l Some b by (simp add: algebra_simps)
  next
    case None
    from Cons.IH[OF i] obtain r' s' where
      c: "config_loop cfgs start_time s1 = Some (r', s')" and
      b': "now s' \<le> max (now s1) ?B + real (length cfgs) * emax"
      by blast
    have "max (now s1) ?B \<le> max (now s) ?B + emax" using b e0 by (simp add: max_def)
    then have "now s' \<le> max (now s) ?B + emax + real (length cfgs) * emax"
      using b' by linarith
    then have "now s' \<le> max (now s) ?B + real (length (cfg # cfgs)) * emax"
      by (simp add: distrib_right)
    then show ?thesis using l None c by simp
  qed
qed

lemma find_placement_returns_in_time:
  assumes "0 < cmin"
      and "all_within cmin cmax (durations s)"
      and "all_within 0 emax (read_delays s)"
  shows "\<exists>r s'. find_placement s = Some (r, s') \<and>
           now s' - now s \<le> (VALIDATION_TIME_LIMIT - 0.2) + 100 * cmax + 5 * emax"
proof -
  let ?s1 = "snd (time_time s)"
  let ?s2 = "snd (shuffle edge_configs ?s1)"
  let ?cfgs = "fst (shuffle edge_configs ?s1)"
  have e: "find_placement s = config_loop ?cfgs (now s) ?s2"
    by (simp add: find_placement_def split_beta time_time_simps)
  have w: "all_within cmin cmax (durations ?s2)"
    using assms(2) by (simp add: shuffle_frame time_time_simps)
  have r: "all_within 0 emax (read_delays ?s2)"
    using all_within_stl[OF assms(3)] by (simp add: shuffle_frame time_time_simps)
  have len: "length ?cfgs = 4" by (simp add: shuffle_frame edge_configs_def)
  have rd: "0 \<le> shd (read_delays s)" "shd (read_delays s) \<le> emax"
    using all_within_shd[OF assms(3)] by simp_all
  have cm: "0 \<le> cmax" using all_within_shd[OF assms(2)] assms(1) by linarith
  from config_loop_returns[OF assms(1) w r, of ?cfgs "now s"] obtain res s' where
    c: "config_loop ?cfgs (now s) ?s2 = Some (res, s')" and
    b: "now s' \<le> max (now ?s2) (now s + (VALIDATION_TIME_LIMIT - 0.2) + emax + 100 * cmax)
                   + real (length ?cfgs) * emax"
    by blast
  have "now ?s2 \<le> now s + (VALIDATION_TIME_LIMIT - 0.2) + emax + 100 * cmax"
    using rd cm by (simp add: shuffle_frame time_time_simps VALIDATION_TIME_LIMIT_def)
  then have "now s' - now s \<le> (VALIDATION_TIME_LIMIT - 0.2) + 100 * cmax + 5 * emax"
    using b unfolding len by (simp add: max_def)
  then show ?thesis using e c by simp
qed

subsection \<open>Runs in which every attempt fails\<close>

lemma zero_draws_internal:
  "place_internal tgt p
      \<lparr>now = t, read_delays = rd, durations = du, int_draws = ids,
       float_draws = sconst 0, stdout = out\<rparr>
   = (dict_set Xtal (zero_draw_pos tgt) (dict_set Micro (zero_draw_pos tgt) p),
      \<lparr>now = t, read_delays = rd, durations = du, int_draws = ids,
       float_draws = sconst 0, stdout = out\<rparr>)"
  by (simp add: place_internal_def uniform_def get_center_from_pos_def rotated_size_def
        PROXIMITY_RADIUS_def Let_def zero_draw_pos_def)

lemma coincide_overlap:
  assumes "snd (snd mc) = 0"
  shows "\<not> fst (validate_placement (convert_to_util_format
           [(Mikrobus1, a), (Mikrobus2, b), (Usb, c), (Micro, mc), (Xtal, mc)]))"
proof -
  obtain x1 y1 r1 where a: "a = (x1, y1, r1)" by (cases a)
  obtain x2 y2 r2 where b: "b = (x2, y2, r2)" by (cases b)
  obtain x3 y3 r3 where c: "c = (x3, y3, r3)" by (cases c)
  obtain mx my where mc: "mc = (mx, my, 0)" using assms by (cases mc) auto
  let ?r = "\<lparr>rect_x = mx, rect_y = my, rect_w = 5, rect_h = 5\<rparr>"
  let ?u = "convert_to_util_format
           [(Mikrobus1, a), (Mikrobus2, b), (Usb, c), (Micro, mc), (Xtal, mc)]"
  have u: "\<exists>ra rb rc. ?u = [(MIKROBUS_CONNECTOR_1, ra), (MIKROBUS_CONNECTOR_2, rb),
                 (USB_CONNECTOR, rc), (MICROCONTROLLER, ?r), (CRYSTAL, ?r)]"
    unfolding a b c mc
    by (simp add: convert_to_util_format_def rotated_size_def names)
  then obtain ra rb rc where u': "?u = [(MIKROBUS_CONNECTOR_1, ra), (MIKROBUS_CONNECTOR_2, rb),
                 (USB_CONNECTOR, rc), (MICROCONTROLLER, ?r), (CRYSTAL, ?r)]"
    by blast
  have k: "list_all (dict_has ?u) required_keys"
    unfolding u' by (simp add: required_keys_def dict_has_def names)
  have "rects_overlap ?r ?r" by (simp add: rects_overlap_def)
  then have "overlap_found ?u"
    unfolding u' by (simp add: overlap_found_def dict_values_def)
  then show ?thesis
    unfolding validate_result[OF k] by simp
qed

lemma zero_draws_step:
  assumes "p = [(Mikrobus1, a), (Mikrobus2, b), (Usb, c)] \<or>
           p = [(Mikrobus1, a), (Mikrobus2, b), (Usb, c), (Micro, d), (Xtal, e)]"
  shows "\<exists>p' out'. inner_attempts (Suc n) tgt p
      \<lparr>now = t, read_delays = rd, durations = sconst 1, int_draws = ids,
       float_draws = sconst 0, stdout = out\<rparr>
   = inner_attempts n tgt p'
      \<lparr>now = t + 1, read_delays = rd, durations = sconst 1, int_draws = ids,
       float_draws = sconst 0, stdout = out'\<rparr> \<and>
     (\<exists>d' e'. p' = [(Mikrobus1, a), (Mikrobus2, b), (Usb, c), (Micro, d'), (Xtal, e')])"
proof -
  let ?w = "\<lparr>now = t, read_delays = rd, durations = sconst 1, int_draws = ids,
             float_draws = sconst 0, stdout = out\<rparr>"
  let ?p = "[(Mikrobus1, a), (Mikrobus2, b), (Usb, c),
             (Micro, zero_draw_pos tgt), (Xtal, zero_draw_pos tgt)]"
  have z: "snd (snd (zero_draw_pos tgt)) = 0" by (simp add: zero_draw_pos_def)
  have ds: "dict_set Xtal (zero_draw_pos tgt) (dict_set Micro (zero_draw_pos tgt) p) = ?p"
    using assms by auto
  have pi: "place_internal tgt p ?w = (?p, ?w)"
    unfolding zero_draws_internal ds by (rule refl)
  have nv: "\<not> fst (call_validate (convert_to_util_format ?p) ?w)"
    using coincide_overlap[OF z, of a b c] by (simp add: call_validate_def split_beta)
  have st: "attempt_step tgt p ?w =
      \<lparr>now = t + 1, read_delays = rd, durations = sconst 1, int_draws = ids,
       float_draws = sconst 0,
       stdout = out @ snd (validate_placement (convert_to_util_format ?p))\<rparr>"
    unfolding attempt_step_def pi fst_conv snd_conv
    by (simp add: call_validate_def split_beta elapse_def)
  have "inner_attempts (Suc n) tgt p ?w = inner_attempts n tgt ?p (attempt_step tgt p ?w)"
    unfolding inner_attempts_Suc pi fst_conv snd_conv using nv by (simp only: if_False)
  then show ?thesis unfolding st by blast
qed

lemma zero_draws_fail5:
  "\<exists>out'. inner_attempts n tgt [(Mikrobus1, a), (Mikrobus2, b), (Usb, c), (Micro, d), (Xtal, e)]
      \<lparr>now = t, read_delays = rd, durations = sconst 1, int_draws = ids,
       float_draws = sconst 0, stdout = out\<rparr>
   = (None, \<lparr>now = t + real n, read_delays = rd, durations = sconst 1, int_draws = ids,
             float_draws = sconst 0, stdout = out'\<rparr>)"
proof (induction n arbitrary: d e t out)
  case 0
  then show ?case by simp
next
  case (Suc n)
  from zero_draws_step[of "[(Mikrobus1, a), (Mikrobus2, b), (Usb, c), (Micro, d), (Xtal, e)]"
         a b c d e n tgt t rd ids out]
  obtain out1 d' e' where
    s: "inner_attempts (Suc n) tgt [(Mikrobus1, a), (Mikrobus2, b), (Usb, c), (Micro, d), (Xtal, e)]
      \<lparr>now = t, read_delays = rd, durations = sconst 1, int_draws = ids,
       float_draws = sconst 0, stdout = out\<rparr>
   = inner_attempts n tgt [(Mikrobus1, a), (Mikrobus2, b), (Usb, c), (Micro, d'), (Xtal, e')]
      \<lparr>now = t + 1, read_delays = rd, durations = sconst 1, int_draws = ids,
       float_draws = sconst 0, stdout = out1\<rparr>"
    by blast
  from Suc.IH[of d' e' "t + 1" out1] obtain out' where
    ih: "inner_attempts n tgt [(Mikrobus1, a), (Mikrobus2, b), (Usb, c), (Micro, d'), (Xtal, e')]
      \<lparr>now = t + 1, read_delays = rd, durations = sconst 1, int_draws = ids,
       float_draws = sconst 0, stdout = out1\<rparr>
     = (None, \<lparr>now = t + 1 + real n, read_delays = rd, durations = sconst 1, int_draws = ids,
               float_draws = sconst 0, stdout = out'\<rparr>)"
    by blast
  have "t + 1 + real n = t + real (Suc n)" by simp
  then show ?case unfolding s ih by (simp add: id_def)
qed

lemma zero_draws_fail3:
  "\<exists>out'. inner_attempts (Suc n) tgt [(Mikrobus1, a), (Mikrobus2, b), (Usb, c)]
      \<lparr>now = t, read_delays = rd, durations = sconst 1, int_draws = ids,
       float_draws = sconst 0, stdout = out\<rparr>
   = (None, \<lparr>now = t + real (Suc n), read_delays = rd, durations = sconst 1, int_draws = ids,
             float_draws = sconst 0, stdout = out'\<rparr>)"
proof -
  from zero_draws_step[of "[(Mikrobus1, a), (Mikrobus2, b), (Usb, c)]"
         a b c a a n tgt t rd ids out]
  obtain out1 d' e' where
    s: "inner_attempts (Suc n) tgt [(Mikrobus1, a), (Mikrobus2, b), (Usb, c)]
      \<lparr>now = t, read_delays = rd, durations = sconst 1, int_draws = ids,
       float_draws = sconst 0, stdout = out\<rparr>
   = inner_attempts n tgt [(Mikrobus1, a), (Mikrobus2, b), (Usb, c), (Micro, d'), (Xtal, e')]
      \<lparr>now = t + 1, read_delays = rd, durations = sconst 1, int_draws = ids,
       float_draws = sconst 0, stdout = out1\<rparr>"
    by blast
  from zero_draws_fail5[of n tgt a b c d' e' "t + 1" rd ids out1] obtain out' where
    ih: "inner_attempts n tgt [(Mikrobus1, a), (Mikrobus2, b), (Usb, c), (Micro, d'), (Xtal, e')]
      \<lparr>now = t + 1, read_delays = rd, durations = sconst 1, int_draws = ids,
       float_draws = sconst 0, stdout = out1\<rparr>
     = (None, \<lparr>now = t + 1 + real n, read_delays = rd, durations = sconst 1, int_draws = ids,
               float_draws = sconst 0, stdout = out'\<rparr>)"
    by blast
  have "t + 1 + real n = t + real (Suc n)" by simp
  then show ?thesis unfolding s ih by (simp add: id_def)
qed

lemma edges_shape:
  "\<exists>a b c. place_usb (snd cfg) (fst (place_mikrobus (fst cfg)
        \<lparr>now = t, read_delays = rd, durations = du, int_draws = sconst 0,
         float_draws = fd, stdout = out\<rparr>))
      (snd (place_mikrobus (fst cfg)
        \<lparr>now = t, read_delays = rd, durations = du, int_draws = sconst 0,
         float_draws = fd, stdout = out\<rparr>))
    = ([(Mikrobus1, a), (Mikrobus2, b), (Usb, c)],
       \<lparr>now = t, read_delays = rd, durations = du, int_draws = sconst 0,
         float_draws = fd, stdout = out\<rparr>)"
  by (simp add: place_mikrobus_def place_usb_def randint_def randbelow_def Let_def)

lemma zero_draws_outer:
  "\<exists>out'. outer_attempt cfg
      \<lparr>now = t, read_delays = rd, durations = sconst 1, int_draws = sconst 0,
       float_draws = sconst 0, stdout = out\<rparr>
   = (None, \<lparr>now = t + 100, read_delays = rd, durations = sconst 1, int_draws = sconst 0,
             float_draws = sconst 0, stdout = out'\<rparr>)"
proof -
  obtain a b c where e: "place_usb (snd cfg) (fst (place_mikrobus (fst cfg)
        \<lparr>now = t, read_delays = rd, durations = sconst 1, int_draws = sconst 0,
         float_draws = sconst 0, stdout = out\<rparr>))
      (snd (place_mikrobus (fst cfg)
        \<lparr>now = t, read_delays = rd, durations = sconst 1, int_draws = sconst 0,
         float_draws = sconst 0, stdout = out\<rparr>))
    = ([(Mikrobus1, a), (Mikrobus2, b), (Usb, c)],
       \<lparr>now = t, read_delays = rd, durations = sconst 1, int_draws = sconst 0,
         float_draws = sconst 0, stdout = out\<rparr>)"
    using edges_shape by blast
  have h: "(100::nat) = Suc 99" by simp
  show ?thesis
    using zero_draws_fail3[of 99 "target_center [(Mikrobus1, a), (Mikrobus2, b), (Usb, c)]"
            a b c t rd "sconst 0" out]
    unfolding outer_attempt_def split_beta Let_def e h by simp
qed

lemma zero_shuffle:
  "shuffle edge_configs
     \<lparr>now = t, read_delays = rd, durations = du,
      int_draws = sconst 0, float_draws = fd, stdout = out\<rparr>
   = (shuffled_by_zeros,
      \<lparr>now = t, read_delays = rd, durations = du,
      int_draws = sconst 0, float_draws = fd, stdout = out\<rparr>)"
  by (simp add: shuffle_def edge_configs_def randbelow_def shuffle_from_numeral
        shuffled_by_zeros_def)

subsection \<open>What is printed\<close>

lemma stdout_frame:
  "stdout (snd (randbelow n s)) = stdout s"
  "stdout (snd (randint a b s)) = stdout s"
  "stdout (snd (uniform x y s)) = stdout s"
  "stdout (snd (time_time s)) = stdout s"
  "stdout (elapse s) = stdout s"
  by (simp_all add: randbelow_def randint_def uniform_def time_time_def elapse_def split_beta)

lemma place_stdout:
  "stdout (snd (place_mikrobus ori s)) = stdout s"
  "stdout (snd (place_usb e p s)) = stdout s"
  "stdout (snd (place_internal tgt p s)) = stdout s"
  by (simp_all add: place_mikrobus_def place_usb_def place_internal_def split_beta Let_def
        stdout_frame)

lemma attempt_step_stdout:
  "stdout (attempt_step tgt p s) =
     stdout s @ snd (validate_placement (convert_to_util_format (fst (place_internal tgt p s))))"
  by (simp add: attempt_step_def call_validate_def split_beta stdout_frame place_stdout)

lemma inner_attempts_stdout:
  "\<exists>rest. stdout (snd (inner_attempts n tgt p s)) = stdout s @ rest"
proof (induction n arbitrary: p s)
  case 0
  then show ?case by simp
next
  case (Suc n)
  obtain rest where
    "stdout (snd (inner_attempts n tgt (fst (place_internal tgt p s)) (attempt_step tgt p s)))
       = stdout (attempt_step tgt p s) @ rest"
    using Suc.IH by blast
  then show ?case
    unfolding inner_attempts_Suc by (simp add: attempt_step_stdout)
qed

lemma inner_attempts_first:
  "\<exists>rest. stdout (snd (inner_attempts (Suc n) tgt p s)) =
     stdout s @ snd (validate_placement (convert_to_util_format (fst (place_internal tgt p s))))
       @ rest"
proof -
  obtain rest where
    "stdout (snd (inner_attempts n tgt (fst (place_internal tgt p s)) (attempt_step tgt p s)))
       = stdout (attempt_step tgt p s) @ rest"
    using inner_attempts_stdout by blast
  then show ?thesis
    unfolding inner_attempts_Suc by (simp add: attempt_step_stdout)
qed

lemma outer_attempt_first:
  "\<exists>rest. stdout (snd (outer_attempt cfg s)) =
     stdout s @ snd (validate_placement (first_candidate cfg s)) @ rest"
proof -
  let ?s1 = "snd (place_mikrobus (fst cfg) s)"
  let ?p1 = "fst (place_mikrobus (fst cfg) s)"
  let ?s2 = "snd (place_usb (snd cfg) ?p1 ?s1)"
  let ?p2 = "fst (place_usb (snd cfg) ?p1 ?s1)"
  have e: "outer_attempt cfg s = inner_attempts (Suc 99) (target_center ?p2) ?p2 ?s2"
    by (simp add: outer_attempt_def split_beta)
  have c: "first_candidate cfg s =
             convert_to_util_format (fst (place_internal (target_center ?p2) ?p2 ?s2))"
    by (simp add: first_candidate_def split_beta)
  have "stdout ?s2 = stdout s" by (simp add: place_stdout)
  then show ?thesis
    unfolding e c using inner_attempts_first[of 99 "target_center ?p2" ?p2 ?s2] by simp
qed

lemma attempt_loop_stdout:
  assumes "attempt_loop cfg start_time s = Some y"
  shows "\<exists>rest. stdout (snd y) = stdout s @ rest"
proof (rule attempt_loop.raw_induct[OF _ assms])
  fix f cfg start_time s y
  assume IH: "\<And>cfg start_time s y. f cfg start_time s = Some y \<Longrightarrow>
                \<exists>rest. stdout (snd y) = stdout s @ rest"
    and step: "(case time_time s of (t, s) \<Rightarrow>
                  if t - start_time < VALIDATION_TIME_LIMIT - 0.2
                  then (case outer_attempt cfg s of
                          (Some positions, s') \<Rightarrow> Some (Some positions, s')
                        | (None, s') \<Rightarrow> f cfg start_time s')
                  else Some (None, s)) = Some y"
  obtain t s1 where tt: "time_time s = (t, s1)" by (cases "time_time s")
  obtain r s2 where oa: "outer_attempt cfg s1 = (r, s2)" by (cases "outer_attempt cfg s1")
  have s1: "stdout s1 = stdout s" using stdout_frame(4)[of s] tt by simp
  obtain rest2 where s2: "stdout s2 = stdout s @ rest2"
    using outer_attempt_first[of cfg s1] oa s1 by auto
  show "\<exists>rest. stdout (snd y) = stdout s @ rest"
  proof (cases "t - start_time < VALIDATION_TIME_LIMIT - 0.2")
    case False
    with step tt s1 show ?thesis by auto
  next
    case True
    show ?thesis
    proof (cases r)
      case None
      with step tt oa True have "f cfg start_time s2 = Some y" by simp
      from IH[OF this] s2 show ?thesis by auto
    next
      case (Some p)
      with step tt oa True have "y = (Some p, s2)" by simp
      with s2 show ?thesis by simp
    qed
  qed
qed

lemma config_loop_append:
  "config_loop (xs @ ys) start_time s =
     (case config_loop xs start_time s of
        None \<Rightarrow> None
      | Some (Some positions, s') \<Rightarrow> Some (Some positions, s')
      | Some (None, s') \<Rightarrow> config_loop ys start_time s')"
proof (induction xs arbitrary: s)
  case Nil
  then show ?case by simp
next
  case (Cons cfg xs)
  show ?case
  proof (cases "attempt_loop cfg start_time s")
    case None
    then show ?thesis by simp
  next
    case (Some y)
    obtain r s1 where y: "y = (r, s1)" by (cases y)
    show ?thesis
    proof (cases r)
      case None
      with Some y show ?thesis by (simp add: Cons.IH)
    next
      case (Some p)
      with \<open>attempt_loop cfg start_time s = Some y\<close> y show ?thesis by simp
    qed
  qed
qed

lemma config_loop_stdout:
  "config_loop cfgs start_time s = Some (r, s') \<Longrightarrow> \<exists>rest. stdout s' = stdout s @ rest"
proof (induction cfgs arbitrary: s)
  case Nil
  then show ?case by simp
next
  case (Cons cfg cfgs)
  from Cons.prems obtain y where a: "attempt_loop cfg start_time s = Some y"
    by (cases "attempt_loop cfg start_time s") auto
  obtain q s1 where y: "y = (q, s1)" by (cases y)
  obtain rest1 where o: "stdout s1 = stdout s @ rest1"
    using attempt_loop_stdout[OF a] y by auto
  show ?case
  proof (cases q)
    case None
    with Cons.prems a y have "config_loop cfgs start_time s1 = Some (r, s')" by simp
    from Cons.IH[OF this] o show ?thesis by auto
  next
    case (Some p)
    with Cons.prems a y have "s' = s1" by simp
    with o show ?thesis by simp
  qed
qed

text \<open>
  Once a configuration's loop is entered with time remaining, the run goes through one
  pass of its body; if that pass fails, the loop is entered again.
\<close>

lemma config_loop_first_pass:
  assumes "time_time s = (t, s_in)"
      and "t - start_time < VALIDATION_TIME_LIMIT - 0.2"
  shows "config_loop (cfg # cfgs) start_time s =
           (case outer_attempt cfg s_in of
              (Some positions, s') \<Rightarrow> Some (Some positions, s')
            | (None, s') \<Rightarrow> config_loop (cfg # cfgs) start_time s')"
proof -
  have si: "s_in = snd (time_time s)" using assms(1) by simp
  have nt: "now s = t" using assms(1) by (auto simp: time_time_def)
  obtain r s1 where oa: "outer_attempt cfg s_in = (r, s1)" by (cases "outer_attempt cfg s_in")
  show ?thesis
  proof (cases r)
    case None
    then have "attempt_loop cfg start_time s = attempt_loop cfg start_time s1"
      using assms(2) si nt oa by (subst attempt_loop_unfold) simp
    then show ?thesis using oa None by simp
  next
    case (Some p)
    then have "attempt_loop cfg start_time s = Some (Some p, s1)"
      using assms(2) si nt oa by (subst attempt_loop_unfold) simp
    then show ?thesis using oa Some by simp
  qed
qed

text \<open>
  \<open>random.shuffle\<close> only exchanges elements, so each of the four configurations occurs
  in the shuffled order.
\<close>

lemma shuffle_from_set:
  "i < length xs \<Longrightarrow> set (fst (shuffle_from i xs s)) = set xs"
proof (induction i arbitrary: xs s)
  case 0
  then show ?case by simp
next
  case (Suc i)
  let ?j = "fst (randbelow (Suc i + 1) s)"
  let ?xs = "xs[Suc i := xs ! ?j, ?j := xs ! Suc i]"
  have "?j < Suc i + 1" by (simp add: randbelow_def)
  then have j: "?j < length xs" using Suc.prems by linarith
  have "set ?xs = set xs" using set_swap[OF Suc.prems j] .
  moreover have "i < length ?xs" using Suc.prems by simp
  ultimately show ?case using Suc.IH[of ?xs] by (simp add: split_beta)
qed

lemma shuffle_keeps_configurations:
  assumes "shuffle edge_configs s = (cfgs, s')"
  shows "length cfgs = 4 \<and> set cfgs = set edge_configs"
proof -
  have "set (fst (shuffle edge_configs s)) = set edge_configs"
    unfolding shuffle_def by (rule shuffle_from_set) (simp add: edge_configs_def)
  moreover have "length (fst (shuffle edge_configs s)) = 4"
    by (simp add: shuffle_frame edge_configs_def)
  ultimately show ?thesis using assms by simp
qed

text \<open>
  Claim C6. Take an invocation of \<open>find_placement\<close>: the clock is read, the
  configurations are shuffled into \<open>cfgs\<close>, and the loop over \<open>cfgs\<close> runs. Suppose its
  first \<open>k\<close> configurations end without success, so that configuration \<open>k\<close> is reached
  in state \<open>s\<close>, and the clock reading of its first \<open>while\<close> check is below the deadline.
  Then the run of \<open>find_placement\<close> goes through one pass of the loop body for that
  configuration; that pass generates a candidate and prints the validator's report on
  it; and if \<open>find_placement\<close> returns, the report is part of what it has printed. This
  holds for every position \<open>k\<close> of the shuffled order, on runs that succeed and on runs
  that do not, and the first two parts also on runs that never return.
\<close>

theorem configuration_attempted:
  assumes "time_time s0 = (start_time, s1)"
      and "shuffle edge_configs s1 = (cfgs, s2)"
      and "k < length cfgs"
      and "config_loop (take k cfgs) start_time s2 = Some (None, s)"
      and "time_time s = (t, s_in)"
      and "t - start_time < VALIDATION_TIME_LIMIT - 0.2"
  shows "find_placement s0 =
           (case outer_attempt (cfgs ! k) s_in of
              (Some positions, s') \<Rightarrow> Some (Some positions, s')
            | (None, s') \<Rightarrow> config_loop (drop k cfgs) start_time s') \<and>
         (\<exists>rest. stdout (snd (outer_attempt (cfgs ! k) s_in)) =
            stdout s @ snd (validate_placement (first_candidate (cfgs ! k) s_in)) @ rest) \<and>
         (\<forall>res s_end. find_placement s0 = Some (res, s_end) \<longrightarrow>
            (\<exists>rest. stdout s_end =
               stdout s @ snd (validate_placement (first_candidate (cfgs ! k) s_in)) @ rest))"
proof -
  let ?cfg = "cfgs ! k"
  let ?report = "snd (validate_placement (first_candidate ?cfg s_in))"
  have d: "drop k cfgs = ?cfg # drop (Suc k) cfgs"
    using assms(3) by (simp add: Cons_nth_drop_Suc)
  have "find_placement s0 = config_loop (take k cfgs @ drop k cfgs) start_time s2"
    using assms(1,2) by (simp add: find_placement_def)
  also have "\<dots> = config_loop (drop k cfgs) start_time s"
    unfolding config_loop_append assms(4) by simp
  finally have f: "find_placement s0 = config_loop (?cfg # drop (Suc k) cfgs) start_time s"
    unfolding d .
  have run: "find_placement s0 =
           (case outer_attempt ?cfg s_in of
              (Some positions, s') \<Rightarrow> Some (Some positions, s')
            | (None, s') \<Rightarrow> config_loop (drop k cfgs) start_time s')"
    unfolding f d by (rule config_loop_first_pass[OF assms(5,6)])
  have si: "stdout s_in = stdout s" using assms(5) stdout_frame(4)[of s] by simp
  obtain rest1 where o: "stdout (snd (outer_attempt ?cfg s_in)) = stdout s @ ?report @ rest1"
    using outer_attempt_first[of ?cfg s_in] si by auto
  have fin: "\<exists>rest. stdout s_end = stdout s @ ?report @ rest"
    if r: "find_placement s0 = Some (res, s_end)" for res s_end
  proof -
    obtain q s' where oa: "outer_attempt ?cfg s_in = (q, s')"
      by (cases "outer_attempt ?cfg s_in")
    show ?thesis
    proof (cases q)
      case None
      with r run oa have "config_loop (drop k cfgs) start_time s' = Some (res, s_end)" by simp
      from config_loop_stdout[OF this] o oa show ?thesis by auto
    next
      case (Some p)
      with r run oa have "s_end = s'" by simp
      with o oa show ?thesis by auto
    qed
  qed
  from run o fin show ?thesis by blast
qed

subsection \<open>The deadline\<close>

lemma attempt_loop_expired:
  "\<not> now s - start_time < VALIDATION_TIME_LIMIT - 0.2 \<Longrightarrow>
   attempt_loop cfg start_time s = Some (None, snd (time_time s))"
  by (subst attempt_loop_unfold) simp

text \<open>
  The loop of a configuration ends without success only by a clock reading at or past
  the deadline; the next configuration is reached in the state right after that reading.
\<close>

lemma attempt_loop_ends_past_deadline:
  assumes "attempt_loop cfg start_time s = Some y"
  shows "fst y = None \<longrightarrow>
           (\<exists>s_last. \<not> now s_last - start_time < VALIDATION_TIME_LIMIT - 0.2 \<and>
                      snd y = snd (time_time s_last))"
proof (rule attempt_loop.raw_induct[OF _ assms])
  fix f cfg start_time s y
  assume IH: "\<And>cfg start_time s y. f cfg start_time s = Some y \<Longrightarrow>
                fst y = None \<longrightarrow>
                  (\<exists>s_last. \<not> now s_last - start_time < VALIDATION_TIME_LIMIT - 0.2 \<and>
                             snd y = snd (time_time s_last))"
    and step: "(case time_time s of (t, s) \<Rightarrow>
                  if t - start_time < VALIDATION_TIME_LIMIT - 0.2
                  then (case outer_attempt cfg s of
                          (Some positions, s') \<Rightarrow> Some (Some positions, s')
                        | (None, s') \<Rightarrow> f cfg start_time s')
                  else Some (None, s)) = Some y"
  obtain t s1 where tt: "time_time s = (t, s1)" by (cases "time_time s")
  obtain r s2 where oa: "outer_attempt cfg s1 = (r, s2)" by (cases "outer_attempt cfg s1")
  have nt: "now s = t" using tt by (auto simp: time_time_def)
  show "fst y = None \<longrightarrow>
          (\<exists>s_last. \<not> now s_last - start_time < VALIDATION_TIME_LIMIT - 0.2 \<and>
                     snd y = snd (time_time s_last))"
  proof (cases "t - start_time < VALIDATION_TIME_LIMIT - 0.2")
    case False
    with step tt have "y = (None, snd (time_time s))" by auto
    with False nt show ?thesis by auto
  next
    case True
    show ?thesis
    proof (cases r)
      case None
      with step tt oa True have "f cfg start_time s2 = Some y" by simp
      then show ?thesis by (rule IH)
    next
      case (Some p)
      with step tt oa True have "y = (Some p, s2)" by simp
      then show ?thesis by simp
    qed
  qed
qed

lemma zero_draws_loop:
  assumes "t - start_time < VALIDATION_TIME_LIMIT - 0.2"
      and "\<not> t + shd rd + 100 - start_time < VALIDATION_TIME_LIMIT - 0.2"
  shows "\<exists>out'. attempt_loop cfg start_time
      \<lparr>now = t, read_delays = rd, durations = sconst 1, int_draws = sconst 0,
       float_draws = sconst 0, stdout = out\<rparr>
   = Some (None, \<lparr>now = t + shd rd + 100 + shd (stl rd), read_delays = stl (stl rd),
             durations = sconst 1, int_draws = sconst 0, float_draws = sconst 0,
             stdout = out'\<rparr>)"
proof -
  let ?w = "\<lparr>now = t, read_delays = rd, durations = sconst 1, int_draws = sconst 0,
             float_draws = sconst 0, stdout = out\<rparr>"
  let ?w1 = "\<lparr>now = t + shd rd, read_delays = stl rd, durations = sconst 1,
              int_draws = sconst 0, float_draws = sconst 0, stdout = out\<rparr>"
  have tt: "snd (time_time ?w) = ?w1" by (simp add: time_time_def)
  obtain out' where o: "outer_attempt cfg ?w1 =
      (None, \<lparr>now = t + shd rd + 100, read_delays = stl rd, durations = sconst 1,
             int_draws = sconst 0, float_draws = sconst 0, stdout = out'\<rparr>)"
    using zero_draws_outer[of cfg "t + shd rd" "stl rd" out] by blast
  let ?w2 = "\<lparr>now = t + shd rd + 100, read_delays = stl rd, durations = sconst 1,
             int_draws = sconst 0, float_draws = sconst 0, stdout = out'\<rparr>"
  have "attempt_loop cfg start_time ?w = attempt_loop cfg start_time ?w2"
    using assms(1) by (subst attempt_loop_unfold) (simp add: tt o)
  also have "\<dots> = Some (None, snd (time_time ?w2))"
    using assms(2) by (intro attempt_loop_expired) simp
  also have "snd (time_time ?w2) =
      \<lparr>now = t + shd rd + 100 + shd (stl rd), read_delays = stl (stl rd),
       durations = sconst 1, int_draws = sconst 0, float_draws = sconst 0, stdout = out'\<rparr>"
    by (simp add: time_time_def)
  finally show ?thesis by blast
qed

lemma slow_run:
  "\<exists>out'. find_placement slow_world =
     Some (None, \<lparr>now = 100, read_delays = sconst 0, durations = sconst 1,
                  int_draws = sconst 0, float_draws = sconst 0, stdout = out'\<rparr>)"
proof -
  let ?w = "\<lambda>t out. \<lparr>now = t, read_delays = sconst 0, durations = sconst 1,
             int_draws = sconst 0, float_draws = sconst (0::real), stdout = out\<rparr>"
  obtain out' where l: "attempt_loop (''v'', ''bottom'') 0 (?w 0 []) = Some (None, ?w 100 out')"
    using zero_draws_loop[of 0 0 "sconst 0" "(''v'', ''bottom'')" "[]"]
    by (auto simp: VALIDATION_TIME_LIMIT_def)
  have x: "attempt_loop cfg 0 (?w 100 out') = Some (None, ?w 100 out')" for cfg
    by (subst attempt_loop_expired) (simp_all add: VALIDATION_TIME_LIMIT_def time_time_def)
  have "find_placement slow_world = config_loop shuffled_by_zeros 0 (?w 0 [])"
    by (simp add: find_placement_def slow_world_def time_time_def zero_shuffle)
  also have "\<dots> = Some (None, ?w 100 out')"
    by (simp add: shuffled_by_zeros_def l x)
  finally show ?thesis by blast
qed

text \<open>
  Every inner attempt takes one second and nothing else takes time: the clock is read
  at 0, the 100 attempts of the first outer attempt follow, and \<open>find_placement\<close> returns
  None after 100 seconds, beyond the two-second budget plus the cost of one attempt.
\<close>

theorem find_placement_overshoot_counterexample:
  "all_within 1 1 (durations slow_world) \<and> all_within 0 0 (read_delays slow_world) \<and>
   map_option fst (find_placement slow_world) = Some None \<and>
   elapsed_time slow_world = Some 100 \<and>
   \<not> 100 \<le> VALIDATION_TIME_LIMIT + 1"
proof -
  obtain out' where r: "find_placement slow_world =
     Some (None, \<lparr>now = 100, read_delays = sconst 0, durations = sconst 1,
                  int_draws = sconst 0, float_draws = sconst 0, stdout = out'\<rparr>)"
    using slow_run by blast
  then have "elapsed_time slow_world = Some 100"
    by (simp add: elapsed_time_def slow_world_def)
  then show ?thesis
    using r by (simp add: all_within_def slow_world_def VALIDATION_TIME_LIMIT_def)
qed

text \<open>
  Claim C9, as amended. If every inner attempt takes between \<open>cmin > 0\<close> and \<open>cmax\<close>, and
  between 0 and \<open>emax\<close> passes after each reading of the clock, then \<open>find_placement\<close>
  returns, with a solution or None, within the budget of 1.8 seconds plus the cost of
  one outer attempt (100 inner attempts) and of its at most five clock readings.
\<close>

theorem find_placement_returns_within_outer_attempt:
  assumes "0 < cmin"
      and "all_within cmin cmax (durations s)"
      and "all_within 0 emax (read_delays s)"
  shows "\<exists>e. elapsed_time s = Some e \<and>
             e \<le> (VALIDATION_TIME_LIMIT - 0.2) + 100 * cmax + 5 * emax"
  using find_placement_returns_in_time[OF assms]
  by (auto simp: elapsed_time_def)

text \<open>In the world of the successful run every inner attempt takes one second.\<close>

theorem find_placement_returns_within_outer_attempt_witness:
  "(0::real) < 1 \<and> all_within 1 1 (durations success_world) \<and>
   all_within 0 0 (read_delays success_world) \<and>
   (\<exists>e. elapsed_time success_world = Some e \<and> e \<le> 1018 / 10)"
proof -
  have d: "all_within 1 1 (durations success_world)"
    by (simp add: all_within_def success_world_def)
  have r: "all_within 0 0 (read_delays success_world)"
    by (simp add: all_within_def success_world_def)
  show ?thesis
    using find_placement_returns_within_outer_attempt [OF zero_less_one d r] d r
    by (simp add: VALIDATION_TIME_LIMIT_def)
qed

subsection \<open>Runs that attempt their first and their second configuration\<close>

text \<open>
  The loop of a configuration leaves time remaining for the next one only if the clock
  was set back after the reading that ended it.
\<close>

lemma time_remains_only_after_set_back:
  assumes "attempt_loop cfg start_time s = Some (None, s')"
      and "now s' - start_time < VALIDATION_TIME_LIMIT - 0.2"
  shows "\<exists>s_last. s' = snd (time_time s_last) \<and> shd (read_delays s_last) < 0"
proof -
  from attempt_loop_ends_past_deadline[OF assms(1)] obtain s_last where
    p: "\<not> now s_last - start_time < VALIDATION_TIME_LIMIT - 0.2" and
    e: "s' = snd (time_time s_last)"
    by auto
  have "now s' = now s_last + shd (read_delays s_last)"
    unfolding e by (simp add: time_time_simps)
  with p assms(2) have "shd (read_delays s_last) < 0" by linarith
  with e show ?thesis by blast
qed

lemma rewound_first_loop:
  "\<exists>out1. attempt_loop (''v'', ''bottom'') 0
      \<lparr>now = 0, read_delays = 0 ## (- 100) ## sconst 0, durations = sconst 1,
       int_draws = sconst 0, float_draws = sconst 0, stdout = []\<rparr>
    = Some (None, \<lparr>now = 0, read_delays = sconst 0, durations = sconst 1,
           int_draws = sconst 0, float_draws = sconst 0, stdout = out1\<rparr>)"
  using zero_draws_loop[of 0 0 "0 ## (- 100) ## sconst 0" "(''v'', ''bottom'')" "[]"]
  by (auto simp: VALIDATION_TIME_LIMIT_def)

text \<open>
  In \<open>slow_world\<close> the first configuration, (v, bottom), is attempted and uses up the
  budget. In \<open>rewound_world\<close> the clock is set back by 100 seconds right after the
  reading that ends the first loop; the second configuration, (h, left), is then
  reached with time remaining, and is attempted.
\<close>

theorem configuration_attempted_witness:
  "(\<exists>s_end rest.
      find_placement slow_world = Some (None, s_end) \<and>
      stdout s_end =
        snd (validate_placement (first_candidate (''v'', ''bottom'') slow_world)) @ rest) \<and>
   (\<exists>s s_end rest.
      config_loop (take 1 shuffled_by_zeros) 0 (snd (time_time rewound_world)) = Some (None, s) \<and>
      fst (time_time s) - 0 < VALIDATION_TIME_LIMIT - 0.2 \<and>
      find_placement rewound_world = Some (None, s_end) \<and>
      stdout s_end = stdout s @
        snd (validate_placement (first_candidate (''h'', ''left'') (snd (time_time s)))) @ rest)"
proof -
  have rem: "(0::real) - 0 < VALIDATION_TIME_LIMIT - 0.2" by (simp add: VALIDATION_TIME_LIMIT_def)
  have len: "0 < length shuffled_by_zeros" "1 < length shuffled_by_zeros"
    by (simp_all add: shuffled_by_zeros_def)
  have k0: "shuffled_by_zeros ! 0 = (''v'', ''bottom'')" by (simp add: shuffled_by_zeros_def)
  have k1: "shuffled_by_zeros ! 1 = (''h'', ''left'')" by (simp add: shuffled_by_zeros_def)
  \<comment> \<open>the first configuration, on a clock that is never set back\<close>
  have a0: "time_time slow_world = (0, slow_world)"
    by (simp add: slow_world_def time_time_def)
  have a1: "shuffle edge_configs slow_world = (shuffled_by_zeros, slow_world)"
    unfolding slow_world_def by (rule zero_shuffle)
  have a2: "config_loop (take 0 shuffled_by_zeros) 0 slow_world = Some (None, slow_world)"
    by simp
  obtain out' where a3: "find_placement slow_world =
     Some (None, \<lparr>now = 100, read_delays = sconst 0, durations = sconst 1,
                  int_draws = sconst 0, float_draws = sconst 0, stdout = out'\<rparr>)"
    using slow_run by blast
  from configuration_attempted [OF a0 a1 len(1) a2 a0 rem] a3
  obtain rest0 where "out' = stdout slow_world @
      snd (validate_placement (first_candidate (shuffled_by_zeros ! 0) slow_world)) @ rest0"
    by auto
  then have first: "\<exists>s_end rest.
      find_placement slow_world = Some (None, s_end) \<and>
      stdout s_end =
        snd (validate_placement (first_candidate (''v'', ''bottom'') slow_world)) @ rest"
    using a3 unfolding k0 by (simp add: slow_world_def)
  \<comment> \<open>the second configuration, after the clock was set back\<close>
  let ?w = "\<lparr>now = 0, read_delays = 0 ## (- 100) ## sconst 0, durations = sconst 1,
       int_draws = sconst 0, float_draws = sconst (0::real), stdout = []\<rparr>"
  have t0: "time_time rewound_world = (0, ?w)"
    by (simp add: rewound_world_def time_time_def)
  have sh: "shuffle edge_configs ?w = (shuffled_by_zeros, ?w)"
    by (rule zero_shuffle)
  obtain out1 where l1: "attempt_loop (''v'', ''bottom'') 0 ?w
    = Some (None, \<lparr>now = 0, read_delays = sconst 0, durations = sconst 1,
           int_draws = sconst 0, float_draws = sconst 0, stdout = out1\<rparr>)"
    using rewound_first_loop by blast
  let ?s = "\<lparr>now = 0, read_delays = sconst 0, durations = sconst 1,
           int_draws = sconst 0, float_draws = sconst (0::real), stdout = out1\<rparr>"
  have en: "config_loop (take 1 shuffled_by_zeros) 0 ?w = Some (None, ?s)"
    by (simp add: shuffled_by_zeros_def l1)
  have tt: "time_time ?s = (0, ?s)" by (simp add: time_time_def)
  obtain out2 where l2: "attempt_loop (''h'', ''left'') 0 ?s
    = Some (None, \<lparr>now = 100, read_delays = sconst 0, durations = sconst 1,
           int_draws = sconst 0, float_draws = sconst 0, stdout = out2\<rparr>)"
    using zero_draws_loop[of 0 0 "sconst 0" "(''h'', ''left'')" out1]
    by (auto simp: VALIDATION_TIME_LIMIT_def)
  let ?e = "\<lparr>now = 100, read_delays = sconst 0, durations = sconst 1,
           int_draws = sconst 0, float_draws = sconst (0::real), stdout = out2\<rparr>"
  have x: "attempt_loop cfg 0 ?e = Some (None, ?e)" for cfg
    by (subst attempt_loop_expired) (simp_all add: VALIDATION_TIME_LIMIT_def time_time_def)
  have "find_placement rewound_world = config_loop shuffled_by_zeros 0 ?w"
    using t0 sh by (simp add: find_placement_def)
  also have "\<dots> = Some (None, ?e)"
    by (simp add: shuffled_by_zeros_def l1 l2 x)
  finally have run: "find_placement rewound_world = Some (None, ?e)" .
  from configuration_attempted [OF t0 sh len(2) en tt rem] run
  obtain rest1 where c: "stdout ?e = stdout ?s @
      snd (validate_placement (first_candidate (shuffled_by_zeros ! 1) ?s)) @ rest1"
    by blast
  have c1: "config_loop (take 1 shuffled_by_zeros) 0 (snd (time_time rewound_world)) = Some (None, ?s)"
    unfolding t0 snd_conv by (rule en)
  have c2: "fst (time_time ?s) - 0 < VALIDATION_TIME_LIMIT - 0.2"
    unfolding tt fst_conv by (rule rem)
  have c3: "stdout ?e = stdout ?s @
      snd (validate_placement (first_candidate (''h'', ''left'') (snd (time_time ?s)))) @ rest1"
    using c unfolding k1 tt snd_conv .
  have second: "\<exists>s s_end rest.
      config_loop (take 1 shuffled_by_zeros) 0 (snd (time_time rewound_world)) = Some (None, s) \<and>
      fst (time_time s) - 0 < VALIDATION_TIME_LIMIT - 0.2 \<and>
      find_placement rewound_world = Some (None, s_end) \<and>
      stdout s_end = stdout s @
        snd (validate_placement (first_candidate (''h'', ''left'') (snd (time_time s)))) @ rest"
    using c1 c2 run c3 by blast
  from first second show ?thesis by blast
qed

end
